theory Spec2Isabelle
  imports Main "HOL-Library.Multiset"
begin

section \<open>Integer arithmetic of the host and device code\<close>

text \<open>
  This theory embeds \<open>src/GpuMemcpy.cpp\<close>: the three copy kernels \<open>scalarCopyKernel\<close>,
  \<open>vectorCopyKernel\<close> and \<open>memcpyFloatKernel\<close>, and the entry points \<open>scalarCopy\<close>,
  \<open>vectorCopy\<close> and \<open>memcpyFloat\<close> that launch them.

  The source computes with the C++ type \<open>int\<close> (32 bits) and with the unsigned 32-bit
  thread coordinates of the device.  Values are modelled as mathematical integers and
  every place where the source narrows a value is written out:
  \<^item> \<open>c_div\<close> is the C++ operator \<open>/\<close> on \<open>int\<close>, which truncates towards zero;
  \<^item> \<open>u32\<close> is the value of an expression of type \<open>unsigned int\<close>;
  \<^item> \<open>s32\<close> is the value an \<open>int\<close> variable holds after it is assigned such an
    expression (the low 32 bits, read in two's complement).

  On the SYCL path the coordinates have the type \<open>size_t\<close>; the low 32 bits of a sum or
  product are the same there, so the \<open>int\<close> variables of the kernels receive the same
  values.  The one sum of two \<open>int\<close> values in the kernels,
  \<open>idx + (n/vectorLength)*vectorLength\<close>, is given its wrapped value as well; whenever it
  leaves the range of \<open>int\<close> the wrapped value is negative and smaller than \<open>n\<close>, so the
  thread goes on to an access outside the buffers.
\<close>

definition c_div :: "int \<Rightarrow> int \<Rightarrow> int" where
  "c_div a b = sgn a * sgn b * (\<bar>a\<bar> div \<bar>b\<bar>)"

definition u32 :: "int \<Rightarrow> int" where
  "u32 v = v mod 2 ^ 32"

definition s32 :: "int \<Rightarrow> int" where
  "s32 v = (v + 2 ^ 31) mod 2 ^ 32 - 2 ^ 31"

text \<open>\<open>const int numthread = 64;\<close> and \<open>#define NUM_ELEM 2\<close>.\<close>

definition numthread :: int where
  "numthread = 64"

definition NUM_ELEM :: int where
  "NUM_ELEM = 2"

text \<open>
  The element types of the explicit instances of \<open>scalarCopy\<close> and \<open>vectorCopy\<close>, with
  their sizes in bytes, and \<open>const int vectorLength = 16/sizeof(T)\<close>.
\<close>

datatype elem_type = T_int | T_long_long_int

fun sizeof :: "elem_type \<Rightarrow> int" where
  "sizeof T_int = 4"
| "sizeof T_long_long_int = 8"

definition vectorLength :: "elem_type \<Rightarrow> int" where
  "vectorLength T = c_div 16 (sizeof T)"

subsection \<open>Launch geometry\<close>

text \<open>
  \<open>int numblock = (n - 1)/numthread + 1;\<close> in \<open>scalarCopy\<close>,
  \<open>int numblock = (n/vectorLength - 1)/numthread + 1;\<close> in \<open>vectorCopy\<close> and
  \<open>int numblock = (n/(4*NUM_ELEM) - 1)/numthread + 1;\<close> in \<open>memcpyFloat\<close>.
\<close>

definition scalarCopy_numblock :: "int \<Rightarrow> int" where
  "scalarCopy_numblock n = c_div (n - 1) numthread + 1"

definition vectorCopy_numblock :: "elem_type \<Rightarrow> int \<Rightarrow> int" where
  "vectorCopy_numblock T n = c_div (c_div n (vectorLength T) - 1) numthread + 1"

definition memcpyFloat_numblock :: "int \<Rightarrow> int" where
  "memcpyFloat_numblock n = c_div (c_div n (4 * NUM_ELEM) - 1) numthread + 1"

text \<open>
  The formula of the specification's launch configurator, for a count \<open>N\<close> and an
  element granularity \<open>G\<close>, with 64 threads per group.
\<close>

definition group_count :: "int \<Rightarrow> int \<Rightarrow> int" where
  "group_count N G = c_div (c_div N G - 1) 64 + 1"

section \<open>Device memory and threads\<close>

text \<open>
  A buffer is seen from its base pointer: \<open>m i\<close> is the element \<open>i\<close> places after the
  pointer.  The source and the destination are two buffers that do not overlap, so the
  kernels read one function and write another.  A thread's run is the list of its memory
  accesses in program order; a store carries the value stored.  By the caller's
  precondition both buffers hold at least \<open>n\<close> elements, so an access at an index of
  \<open>[0, n)\<close> is inside them.  An access at a negative index lies outside every buffer that
  starts at the pointer: the thread stops there with \<open>OutOfBounds\<close>.  Reading a staging
  register that was never written is \<open>UninitializedRead\<close>.  A thread that never leaves
  its loop has the run \<open>None\<close>.
\<close>

datatype 'a event = Load int | Store int 'a

datatype error = OutOfBounds | UninitializedRead

type_synonym 'a run = "(error + 'a event list) option"

fun apply_event :: "'a event \<Rightarrow> (int \<Rightarrow> 'a) \<Rightarrow> (int \<Rightarrow> 'a)" where
  "apply_event (Load i) m = m"
| "apply_event (Store i v) m = m(i := v)"

definition apply_events :: "'a event list \<Rightarrow> (int \<Rightarrow> 'a) \<Rightarrow> (int \<Rightarrow> 'a)" where
  "apply_events tr m = fold apply_event tr m"

fun store_indices :: "'a event list \<Rightarrow> int list" where
  "store_indices [] = []"
| "store_indices (Load i # tr) = store_indices tr"
| "store_indices (Store i v # tr) = i # store_indices tr"

fun load_indices :: "'a event list \<Rightarrow> int list" where
  "load_indices [] = []"
| "load_indices (Load i # tr) = i # load_indices tr"
| "load_indices (Store i v # tr) = load_indices tr"

text \<open>
  The coordinates of a thread.  The macros \<open>threadIdx_x\<close>, \<open>blockIdx_x\<close>, \<open>blockDim_x\<close>
  and \<open>gridDim_x\<close> come from the header \<open>uniapi.h\<close>; they are taken as the built-in
  unsigned 32-bit coordinates of the CUDA and HIP paths.
\<close>

record item =
  threadIdx_x :: nat
  blockIdx_x :: nat
  blockDim_x :: nat
  gridDim_x :: nat

subsection \<open>scalarCopyKernel\<close>

text \<open>
  \<^verbatim>\<open>for (int i = threadIdx_x + blockIdx_x*blockDim_x; i < n; i += blockDim_x*gridDim_x)
    data_out[i] = data_in[i];\<close>
\<close>

partial_function (option) scalarCopyKernel_loop ::
  "int \<Rightarrow> (int \<Rightarrow> 'a) \<Rightarrow> item \<Rightarrow> int \<Rightarrow> 'a event list \<Rightarrow> (error + 'a event list) option" where
  "scalarCopyKernel_loop n data_in it i tr =
     (if i < n then
        (if i < 0 then Some (Inl OutOfBounds)
         else scalarCopyKernel_loop n data_in it
                (s32 (i + int (blockDim_x it * gridDim_x it)))
                (tr @ [Load i, Store i (data_in i)]))
      else Some (Inr tr))"

declare scalarCopyKernel_loop.simps [code]

definition scalarCopyKernel :: "int \<Rightarrow> (int \<Rightarrow> 'a) \<Rightarrow> item \<Rightarrow> 'a run" where
  "scalarCopyKernel n data_in it =
     scalarCopyKernel_loop n data_in it
       (s32 (int (threadIdx_x it + blockIdx_x it * blockDim_x it))) []"

subsection \<open>vectorCopyKernel\<close>

text \<open>
  The 16-byte word \<open>i\<close> of a buffer of elements of type \<open>T\<close> holds the \<open>vectorLength\<close>
  elements from \<open>i * vectorLength\<close> on; a load or store through the \<open>int4_t\<close> pointer
  reads or writes all of them.
\<close>

definition wide_word :: "int \<Rightarrow> int \<Rightarrow> int list" where
  "wide_word vl i = [i * vl .. i * vl + vl - 1]"

definition wide_copy :: "int \<Rightarrow> (int \<Rightarrow> 'a) \<Rightarrow> int \<Rightarrow> 'a event list" where
  "wide_copy vl data_in i =
     map Load (wide_word vl i) @ map (\<lambda>j. Store j (data_in j)) (wide_word vl i)"

text \<open>
  \<^verbatim>\<open>for (int i = idx; i < n/vectorLength; i += blockDim_x*gridDim_x)
    reinterpret_cast<int4_t *>(data_out)[i] = reinterpret_cast<int4_t *>(data_in)[i];\<close>
\<close>

partial_function (option) vectorCopyKernel_vector ::
  "int \<Rightarrow> int \<Rightarrow> (int \<Rightarrow> 'a) \<Rightarrow> item \<Rightarrow> int \<Rightarrow> 'a event list \<Rightarrow> (error + 'a event list) option" where
  "vectorCopyKernel_vector vl n data_in it i tr =
     (if i < c_div n vl then
        (if i < 0 then Some (Inl OutOfBounds)
         else vectorCopyKernel_vector vl n data_in it
                (s32 (i + int (blockDim_x it * gridDim_x it)))
                (tr @ wide_copy vl data_in i))
      else Some (Inr tr))"

declare vectorCopyKernel_vector.simps [code]

text \<open>
  \<^verbatim>\<open>for (int i = idx + (n/vectorLength)*vectorLength; i < n;
       i += blockDim_x*gridDim_x + threadIdx_x)
    data_out[i] = data_in[i];\<close>
\<close>

definition vectorCopyKernel_remaining_stride :: "item \<Rightarrow> int" where
  "vectorCopyKernel_remaining_stride it =
     int (blockDim_x it * gridDim_x it + threadIdx_x it)"

partial_function (option) vectorCopyKernel_remaining ::
  "int \<Rightarrow> (int \<Rightarrow> 'a) \<Rightarrow> item \<Rightarrow> int \<Rightarrow> 'a event list \<Rightarrow> (error + 'a event list) option" where
  "vectorCopyKernel_remaining n data_in it i tr =
     (if i < n then
        (if i < 0 then Some (Inl OutOfBounds)
         else vectorCopyKernel_remaining n data_in it
                (s32 (i + vectorCopyKernel_remaining_stride it))
                (tr @ [Load i, Store i (data_in i)]))
      else Some (Inr tr))"

declare vectorCopyKernel_remaining.simps [code]

definition vectorCopyKernel :: "elem_type \<Rightarrow> int \<Rightarrow> (int \<Rightarrow> 'a) \<Rightarrow> item \<Rightarrow> 'a run" where
  "vectorCopyKernel T n data_in it =
     (let vl = vectorLength T;
          idx = s32 (int (threadIdx_x it + blockIdx_x it * blockDim_x it))
      in case vectorCopyKernel_vector vl n data_in it idx [] of
           None \<Rightarrow> None
         | Some (Inl e) \<Rightarrow> Some (Inl e)
         | Some (Inr tr) \<Rightarrow>
             vectorCopyKernel_remaining n data_in it (s32 (idx + c_div n vl * vl)) tr)"

subsection \<open>memcpyFloatKernel\<close>

text \<open>
  \<^verbatim>\<open>int index = threadIdx_x + numElem*blockIdx_x*blockDim_x;
  float4_t a[numElem];
  for (int i=0; i < numElem; i++)
    if (index + i*blockDim_x < n) a[i] = data_in[index + i*blockDim_x];
  for (int i=0; i < numElem; i++)
    if (index + i*blockDim_x < n) data_out[index + i*blockDim_x] = a[i];\<close>
  The expression \<open>index + i*blockDim_x\<close> has type \<open>unsigned int\<close>, and the comparison
  with \<open>n\<close> is made on \<open>unsigned int\<close>.  The array \<open>a\<close> starts uninitialised (\<open>None\<close>).
\<close>

definition memcpyFloatKernel_index :: "int \<Rightarrow> item \<Rightarrow> int" where
  "memcpyFloatKernel_index numElem it =
     s32 (int (threadIdx_x it) + numElem * int (blockIdx_x it) * int (blockDim_x it))"

definition memcpyFloatKernel_slot :: "int \<Rightarrow> item \<Rightarrow> nat \<Rightarrow> int" where
  "memcpyFloatKernel_slot numElem it i =
     u32 (memcpyFloatKernel_index numElem it + int i * int (blockDim_x it))"

definition memcpyFloatKernel_load ::
  "int \<Rightarrow> int \<Rightarrow> (int \<Rightarrow> 'w) \<Rightarrow> item \<Rightarrow> nat \<Rightarrow>
   'w option list \<times> 'w event list \<Rightarrow> 'w option list \<times> 'w event list" where
  "memcpyFloatKernel_load numElem n data_in it i s =
     (let k = memcpyFloatKernel_slot numElem it i in
      if k < u32 n then ((fst s)[i := Some (data_in k)], snd s @ [Load k]) else s)"

definition memcpyFloatKernel_store ::
  "int \<Rightarrow> int \<Rightarrow> item \<Rightarrow> 'w option list \<Rightarrow> nat \<Rightarrow>
   error + 'w event list \<Rightarrow> error + 'w event list" where
  "memcpyFloatKernel_store numElem n it a i r =
     (let k = memcpyFloatKernel_slot numElem it i in
      case r of
        Inl e \<Rightarrow> Inl e
      | Inr tr \<Rightarrow>
          if k < u32 n then
            (case a ! i of
               None \<Rightarrow> Inl UninitializedRead
             | Some v \<Rightarrow> Inr (tr @ [Store k v]))
          else Inr tr)"

definition memcpyFloatKernel :: "int \<Rightarrow> int \<Rightarrow> (int \<Rightarrow> 'w) \<Rightarrow> item \<Rightarrow> 'w run" where
  "memcpyFloatKernel numElem n data_in it =
     (let s = fold (memcpyFloatKernel_load numElem n data_in it) [0 ..< nat numElem]
                (replicate (nat numElem) None, [])
      in Some (fold (memcpyFloatKernel_store numElem n it (fst s)) [0 ..< nat numElem]
                 (Inr (snd s))))"

subsection \<open>Kernel launch\<close>

text \<open>
  A launch \<open><<< numblock, numthread >>>\<close> runs the kernel once for every block index
  below \<open>numblock\<close> and every thread index below \<open>numthread\<close>.  The runs are joined in
  the order of the grid; a fault in any thread is a fault of the launch.  The threads
  read the source only and every store writes the value of the source at its index, so
  the memory after the launch is the same for every other order of the accesses (lemma
  \<open>apply_events_interleaving\<close> below).
\<close>

definition grid_items :: "nat \<Rightarrow> nat \<Rightarrow> item list" where
  "grid_items gd bd =
     concat (map (\<lambda>b. map (\<lambda>t. \<lparr>threadIdx_x = t, blockIdx_x = b,
                                   blockDim_x = bd, gridDim_x = gd\<rparr>) [0 ..< bd])
                 [0 ..< gd])"

fun join_runs :: "'a run list \<Rightarrow> 'a run" where
  "join_runs [] = Some (Inr [])"
| "join_runs (r # rs) =
     (case r of
        Some (Inl e) \<Rightarrow> Some (Inl e)
      | None \<Rightarrow> (case join_runs rs of Some (Inl e) \<Rightarrow> Some (Inl e) | _ \<Rightarrow> None)
      | Some (Inr tr) \<Rightarrow>
          (case join_runs rs of
             Some (Inr tr') \<Rightarrow> Some (Inr (tr @ tr'))
           | other \<Rightarrow> other))"

definition launch :: "int \<Rightarrow> int \<Rightarrow> (item \<Rightarrow> 'a run) \<Rightarrow> 'a run" where
  "launch numblock threads body =
     join_runs (map body (grid_items (nat (u32 numblock)) (nat (u32 threads))))"

definition finish :: "'a run \<Rightarrow> (int \<Rightarrow> 'a) \<Rightarrow> (error + (int \<Rightarrow> 'a)) option" where
  "finish r data_out =
     (case r of
        None \<Rightarrow> None
      | Some (Inl e) \<Rightarrow> Some (Inl e)
      | Some (Inr tr) \<Rightarrow> Some (Inr (apply_events tr data_out)))"

subsection \<open>Dispatch entry points: the work on the device\<close>

definition scalarCopy_run :: "int \<Rightarrow> (int \<Rightarrow> 'a) \<Rightarrow> 'a run" where
  "scalarCopy_run n data_in =
     launch (scalarCopy_numblock n) numthread (scalarCopyKernel n data_in)"

definition scalarCopy :: "int \<Rightarrow> (int \<Rightarrow> 'a) \<Rightarrow> (int \<Rightarrow> 'a) \<Rightarrow> (error + (int \<Rightarrow> 'a)) option" where
  "scalarCopy n data_in data_out = finish (scalarCopy_run n data_in) data_out"

definition vectorCopy_run :: "elem_type \<Rightarrow> int \<Rightarrow> (int \<Rightarrow> 'a) \<Rightarrow> 'a run" where
  "vectorCopy_run T n data_in =
     launch (vectorCopy_numblock T n) numthread (vectorCopyKernel T n data_in)"

definition vectorCopy ::
  "elem_type \<Rightarrow> int \<Rightarrow> (int \<Rightarrow> 'a) \<Rightarrow> (int \<Rightarrow> 'a) \<Rightarrow> (error + (int \<Rightarrow> 'a)) option" where
  "vectorCopy T n data_in data_out = finish (vectorCopy_run T n data_in) data_out"

text \<open>
  \<open>memcpyFloat\<close> passes \<open>n/4\<close> and the two buffers cast to \<open>float4_t *\<close>: the word \<open>k\<close>
  of the cast buffer is made of the floats \<open>4k\<close> to \<open>4k + 3\<close>.
\<close>

datatype 'a float4_t = Float4 (f4_x: 'a) (f4_y: 'a) (f4_z: 'a) (f4_w: 'a)

definition float4_cast :: "(int \<Rightarrow> 'a) \<Rightarrow> int \<Rightarrow> 'a float4_t" where
  "float4_cast m k = Float4 (m (4 * k)) (m (4 * k + 1)) (m (4 * k + 2)) (m (4 * k + 3))"

fun float_events :: "'a float4_t event \<Rightarrow> 'a event list" where
  "float_events (Load k) = [Load (4 * k), Load (4 * k + 1), Load (4 * k + 2), Load (4 * k + 3)]"
| "float_events (Store k v) =
     [Store (4 * k) (f4_x v), Store (4 * k + 1) (f4_y v),
      Store (4 * k + 2) (f4_z v), Store (4 * k + 3) (f4_w v)]"

definition memcpyFloat_run :: "int \<Rightarrow> (int \<Rightarrow> 'a) \<Rightarrow> 'a run" where
  "memcpyFloat_run n data_in =
     (case launch (memcpyFloat_numblock n) numthread
             (memcpyFloatKernel NUM_ELEM (c_div n 4) (float4_cast data_in)) of
        None \<Rightarrow> None
      | Some (Inl e) \<Rightarrow> Some (Inl e)
      | Some (Inr tr) \<Rightarrow> Some (Inr (concat (map float_events tr))))"

definition memcpyFloat :: "int \<Rightarrow> (int \<Rightarrow> 'a) \<Rightarrow> (int \<Rightarrow> 'a) \<Rightarrow> (error + (int \<Rightarrow> 'a)) option" where
  "memcpyFloat n data_in data_out = finish (memcpyFloat_run n data_in) data_out"

section \<open>Host side of a dispatch\<close>

text \<open>
  The three mutually exclusive paths of an entry point.  The SYCL path submits the kernel
  with \<open>parallel_for\<close> and does nothing else; the HIP and CUDA paths launch the kernel
  and then call \<open>hipCheck(hipGetLastError())\<close> or \<open>cudaCheck(cudaGetLastError())\<close>.
\<close>

datatype backend = SYCL | HIP | CUDA

datatype host_step = Enqueue int int | CheckLastError

definition dispatch :: "backend \<Rightarrow> int \<Rightarrow> host_step list" where
  "dispatch b numblock =
     (case b of
        SYCL \<Rightarrow> [Enqueue numblock numthread]
      | HIP \<Rightarrow> [Enqueue numblock numthread, CheckLastError]
      | CUDA \<Rightarrow> [Enqueue numblock numthread, CheckLastError])"

definition scalarCopy_host :: "backend \<Rightarrow> int \<Rightarrow> host_step list" where
  "scalarCopy_host b n = dispatch b (scalarCopy_numblock n)"

definition vectorCopy_host :: "backend \<Rightarrow> elem_type \<Rightarrow> int \<Rightarrow> host_step list" where
  "vectorCopy_host b T n = dispatch b (vectorCopy_numblock T n)"

definition memcpyFloat_host :: "backend \<Rightarrow> int \<Rightarrow> host_step list" where
  "memcpyFloat_host b n = dispatch b (memcpyFloat_numblock n)"

text \<open>
  Modelled from the spec: the macros \<open>cudaCheck\<close> and \<open>hipCheck\<close> are defined in a header
  that is not among the sources.  Following section 4.5 (d) of the specification, the
  check after the launch reads the most recent device-side error flag and surfaces a fatal
  error if the enqueue itself failed.  \<open>host_run fails flag steps\<close> runs the steps of an
  entry point on a device whose enqueue fails when \<open>fails\<close> holds; \<open>flag\<close> is the error
  flag of the device.
\<close>

datatype host_result = Returned | FatalError

fun host_run :: "bool \<Rightarrow> bool \<Rightarrow> host_step list \<Rightarrow> host_result" where
  "host_run fails flag [] = Returned"
| "host_run fails flag (Enqueue g b # rest) = host_run fails (flag \<or> fails) rest"
| "host_run fails flag (CheckLastError # rest) =
     (if flag then FatalError else host_run fails False rest)"

section \<open>Auxiliary notions for the proofs\<close>

text \<open>The rank of a thread in the grid, \<open>threadIdx_x + blockIdx_x * blockDim_x\<close>.\<close>

definition linear_id :: "item \<Rightarrow> nat" where
  "linear_id it = threadIdx_x it + blockIdx_x it * blockDim_x it"

text \<open>The accesses of one thread of each kernel, in closed form.\<close>

definition scalar_events :: "int \<Rightarrow> (int \<Rightarrow> 'a) \<Rightarrow> nat \<Rightarrow> 'a event list" where
  "scalar_events n src k =
     (if int k < n then [Load (int k), Store (int k) (src (int k))] else [])"

definition vector_events :: "int \<Rightarrow> int \<Rightarrow> (int \<Rightarrow> 'a) \<Rightarrow> nat \<Rightarrow> 'a event list" where
  "vector_events vl n src k =
     (if int k < n div vl then wide_copy vl src (int k) else []) @
     (if int k + n div vl * vl < n
      then [Load (int k + n div vl * vl),
            Store (int k + n div vl * vl) (src (int k + n div vl * vl))]
      else [])"

definition memcpy_events :: "int \<Rightarrow> (int \<Rightarrow> 'w) \<Rightarrow> item \<Rightarrow> 'w event list" where
  "memcpy_events n src it =
     (let k0 = memcpyFloatKernel_slot 2 it 0; k1 = memcpyFloatKernel_slot 2 it 1 in
      (if k0 < u32 n then [Load k0] else []) @ (if k1 < u32 n then [Load k1] else []) @
      (if k0 < u32 n then [Store k0 (src k0)] else []) @
      (if k1 < u32 n then [Store k1 (src k1)] else []))"

text \<open>
  The first word of the thread of rank \<open>l\<close> in a \<open>memcpyFloat\<close> launch of blocks of 64
  threads: \<open>threadIdx_x + 2 * 64 * blockIdx_x\<close>.
\<close>

definition word_slot :: "nat \<Rightarrow> int" where
  "word_slot l = int l + 64 * (int l div 64)"

text \<open>
  The counts for which no index computed in a \<open>vectorCopy\<close> launch leaves the range of
  the type \<open>int\<close>, for each element type: the largest index a thread computes is
  \<open>n + 64 * numblock + max 0 (n mod vectorLength - 1) - 1\<close>, and it is at most \<open>2^31 - 1\<close>
  exactly for these counts.
\<close>

fun vectorCopy_fits :: "elem_type \<Rightarrow> int \<Rightarrow> bool" where
  "vectorCopy_fits T_int n = (n \<le> 1717986878 \<or> n = 1717986880)"
| "vectorCopy_fits T_long_long_int n = (n \<le> 1431655744)"

text \<open>Every store of the run writes the value the source holds at the same index.\<close>

fun copies_from :: "(int \<Rightarrow> 'a) \<Rightarrow> 'a event list \<Rightarrow> bool" where
  "copies_from src [] = True"
| "copies_from src (Load i # tr) = copies_from src tr"
| "copies_from src (Store i v # tr) = (v = src i \<and> copies_from src tr)"

section \<open>Properties of the model\<close>

subsection \<open>Launch geometry\<close>

lemma c_div_nonneg: "0 \<le> a \<Longrightarrow> 0 < b \<Longrightarrow> c_div a b = a div b"
  by (cases "a = 0") (simp_all add: c_div_def)

lemma c_div_pred_64:
  "0 \<le> m \<Longrightarrow> c_div (m - 1) 64 + 1 = (if m = 0 then 1 else (m - 1) div 64 + 1)"
proof (cases "m = 0")
  case True
  then show ?thesis by (simp add: c_div_def)
next
  case False
  assume "0 \<le> m"
  with False have "0 \<le> m - 1" by simp
  then have "c_div (m - 1) 64 = (m - 1) div 64" by (rule c_div_nonneg) simp
  with False show ?thesis by simp
qed

lemma vectorLength_simps: "vectorLength T_int = 4" "vectorLength T_long_long_int = 2"
  by (simp_all add: vectorLength_def c_div_def)

lemma group_count_eq:
  "0 \<le> N \<Longrightarrow> 0 < G \<Longrightarrow>
   group_count N G = (if N div G = 0 then 1 else (N div G - 1) div 64 + 1)"
  by (simp add: group_count_def c_div_nonneg c_div_pred_64 pos_imp_zdiv_nonneg_iff)

lemma group_count_mono:
  assumes "0 \<le> N1" "N1 \<le> N2" "0 < G"
  shows "group_count N1 G \<le> group_count N2 G"
proof -
  have d: "N1 div G \<le> N2 div G" using assms by (simp add: zdiv_mono1)
  have p: "0 \<le> N1 div G" using assms by (simp add: pos_imp_zdiv_nonneg_iff)
  have "(N1 div G - 1) div 64 \<le> (N2 div G - 1) div 64" using d by (simp add: zdiv_mono1)
  moreover have "N2 div G \<noteq> 0 \<Longrightarrow> 0 \<le> (N2 div G - 1) div 64"
    using d p by (simp add: pos_imp_zdiv_nonneg_iff)
  ultimately show ?thesis using assms d p by (auto simp: group_count_eq)
qed

lemma c_div_one: "c_div a 1 = a"
  by (simp add: c_div_def mult_sgn_abs)

lemma numblock_group_count:
  "scalarCopy_numblock n = group_count n 1"
  "vectorCopy_numblock T n = group_count n (vectorLength T)"
  "memcpyFloat_numblock n = group_count n 8"
  by (simp_all add: scalarCopy_numblock_def vectorCopy_numblock_def memcpyFloat_numblock_def
      group_count_def numthread_def NUM_ELEM_def c_div_one)

lemma vectorLength_pos: "0 < vectorLength T"
  by (cases T) (simp_all add: vectorLength_simps)

subsection \<open>Machine integers\<close>


lemma s32_id: "- 2147483648 \<le> v \<Longrightarrow> v < 2147483648 \<Longrightarrow> s32 v = v"
  by (simp add: s32_def)

lemma s32_wrap: "2147483648 \<le> v \<Longrightarrow> v < 4294967296 \<Longrightarrow> s32 v = v - 4294967296"
proof -
  assume a: "2147483648 \<le> v" "v < 4294967296"
  have "(v + 2147483648) mod 4294967296 = (v + 2147483648 - 4294967296) mod 4294967296"
    by (simp only: minus_mod_self2)
  also have "\<dots> = v - 2147483648" using a by simp
  finally show ?thesis by (simp add: s32_def)
qed

lemma u32_id: "0 \<le> v \<Longrightarrow> v < 4294967296 \<Longrightarrow> u32 v = v"
  by (simp add: u32_def)

lemma u32_bounds: "0 \<le> u32 v" "u32 v < 4294967296"
  by (simp_all add: u32_def)

lemma u32_le: "0 \<le> v \<Longrightarrow> u32 v \<le> v"
  by (simp add: u32_def zmod_le_nonneg_dividend)

subsection \<open>Joining the runs of a launch\<close>

lemma join_runs_all_ok:
  "(\<And>x. x \<in> set xs \<Longrightarrow> body x = Some (Inr (f x))) \<Longrightarrow>
   join_runs (map body xs) = Some (Inr (concat (map f xs)))"
  by (induction xs) simp_all


subsection \<open>The grid\<close>

lemma grid_items_set:
  "it \<in> set (grid_items gd bd) \<longleftrightarrow>
   threadIdx_x it < bd \<and> blockIdx_x it < gd \<and> blockDim_x it = bd \<and> gridDim_x it = gd"
  by (cases it) (auto simp: grid_items_def image_iff)

lemma linear_id_rows:
  "map linear_id (concat (map (\<lambda>b. map (\<lambda>t. \<lparr>threadIdx_x = t, blockIdx_x = b,
        blockDim_x = bd, gridDim_x = g\<rparr>) [0 ..< bd]) [0 ..< k])) = [0 ..< k * bd]"
proof (induction k)
  case 0
  then show ?case by simp
next
  case (Suc k)
  have "map (\<lambda>t. linear_id \<lparr>threadIdx_x = t, blockIdx_x = k, blockDim_x = bd, gridDim_x = g\<rparr>) [0 ..< bd]
        = map (\<lambda>t. t + k * bd) [0 ..< bd]"
    by (simp add: linear_id_def)
  also have "\<dots> = [k * bd ..< k * bd + bd]"
    using map_add_upt [of "k * bd" bd] by (simp add: add.commute)
  finally have row: "map (\<lambda>t. linear_id \<lparr>threadIdx_x = t, blockIdx_x = k, blockDim_x = bd, gridDim_x = g\<rparr>) [0 ..< bd] = [k * bd ..< k * bd + bd]" .
  have "[0 ..< Suc k * bd] = [0 ..< k * bd] @ [k * bd ..< k * bd + bd]"
    using upt_add_eq_append [of 0 "k * bd" bd] by (simp add: add.commute)
  then show ?case using Suc row by (simp add: o_def)
qed

lemma linear_id_grid: "map linear_id (grid_items gd bd) = [0 ..< gd * bd]"
  unfolding grid_items_def by (rule linear_id_rows)


subsection \<open>One thread of scalarCopyKernel\<close>

lemma scalarCopyKernel_loop_exit:
  "\<not> i < n \<Longrightarrow> scalarCopyKernel_loop n src it i tr = Some (Inr tr)"
  by (subst scalarCopyKernel_loop.simps) simp


lemma scalarCopyKernel_loop_step:
  "i < n \<Longrightarrow> 0 \<le> i \<Longrightarrow>
   scalarCopyKernel_loop n src it i tr =
   scalarCopyKernel_loop n src it (s32 (i + int (blockDim_x it * gridDim_x it)))
     (tr @ [Load i, Store i (src i)])"
  by (subst scalarCopyKernel_loop.simps) simp


lemma scalarCopyKernel_thread:
  assumes "n \<le> int (blockDim_x it * gridDim_x it)"
    and "int (blockDim_x it * gridDim_x it) \<le> 1073741824"
    and "linear_id it < blockDim_x it * gridDim_x it"
  shows "scalarCopyKernel n src it = Some (Inr (scalar_events n src (linear_id it)))"
proof -
  let ?k = "int (linear_id it)"
  let ?t = "int (blockDim_x it * gridDim_x it)"
  have kt: "?k < ?t" using assms(3) by (simp only: of_nat_less_iff)
  have "s32 ?k = ?k" using kt assms(2) by (intro s32_id) linarith+
  then have idx: "s32 (int (threadIdx_x it + blockIdx_x it * blockDim_x it)) = ?k"
    by (simp only: linear_id_def)
  show ?thesis
  proof (cases "?k < n")
    case True
    have nxt: "s32 (?k + ?t) = ?k + ?t" using kt assms(2) by (intro s32_id) linarith+
    have "\<not> ?k + ?t < n" using assms(1) by linarith
    then have "scalarCopyKernel_loop n src it (s32 (?k + ?t)) ([] @ [Load ?k, Store ?k (src ?k)])
        = Some (Inr ([] @ [Load ?k, Store ?k (src ?k)]))"
      unfolding nxt by (rule scalarCopyKernel_loop_exit)
    moreover have "scalarCopyKernel_loop n src it ?k []
        = scalarCopyKernel_loop n src it (s32 (?k + ?t)) ([] @ [Load ?k, Store ?k (src ?k)])"
      using True by (intro scalarCopyKernel_loop_step) simp_all
    ultimately have "scalarCopyKernel_loop n src it ?k [] = Some (Inr [Load ?k, Store ?k (src ?k)])"
      by simp
    then show ?thesis
      using True unfolding scalarCopyKernel_def idx by (simp add: scalar_events_def)
  next
    case False
    then show ?thesis
      unfolding scalarCopyKernel_def idx
      by (simp add: scalarCopyKernel_loop_exit scalar_events_def)
  qed
qed


subsection \<open>One thread of vectorCopyKernel\<close>

lemma vectorCopyKernel_vector_exit:
  "\<not> i < c_div n vl \<Longrightarrow> vectorCopyKernel_vector vl n src it i tr = Some (Inr tr)"
  by (subst vectorCopyKernel_vector.simps) simp

lemma vectorCopyKernel_vector_fault:
  "i < c_div n vl \<Longrightarrow> i < 0 \<Longrightarrow>
   vectorCopyKernel_vector vl n src it i tr = Some (Inl OutOfBounds)"
  by (subst vectorCopyKernel_vector.simps) simp

lemma vectorCopyKernel_vector_step:
  "i < c_div n vl \<Longrightarrow> 0 \<le> i \<Longrightarrow>
   vectorCopyKernel_vector vl n src it i tr =
   vectorCopyKernel_vector vl n src it (s32 (i + int (blockDim_x it * gridDim_x it)))
     (tr @ wide_copy vl src i)"
  by (subst vectorCopyKernel_vector.simps) simp

lemma vectorCopyKernel_remaining_exit:
  "\<not> i < n \<Longrightarrow> vectorCopyKernel_remaining n src it i tr = Some (Inr tr)"
  by (subst vectorCopyKernel_remaining.simps) simp


lemma vectorCopyKernel_remaining_step:
  "i < n \<Longrightarrow> 0 \<le> i \<Longrightarrow>
   vectorCopyKernel_remaining n src it i tr =
   vectorCopyKernel_remaining n src it (s32 (i + vectorCopyKernel_remaining_stride it))
     (tr @ [Load i, Store i (src i)])"
  by (subst vectorCopyKernel_remaining.simps) simp



lemma vectorCopyKernel_vector_once:
  assumes "0 \<le> i"
    and "i + int (blockDim_x it * gridDim_x it) < 2147483648"
    and "c_div n vl \<le> i + int (blockDim_x it * gridDim_x it)"
  shows "vectorCopyKernel_vector vl n src it i tr =
         Some (Inr (tr @ (if i < c_div n vl then wide_copy vl src i else [])))"
proof (cases "i < c_div n vl")
  case True
  let ?t = "int (blockDim_x it * gridDim_x it)"
  have nxt: "s32 (i + ?t) = i + ?t" using assms by (intro s32_id) linarith+
  have "vectorCopyKernel_vector vl n src it i tr
      = vectorCopyKernel_vector vl n src it (s32 (i + ?t)) (tr @ wide_copy vl src i)"
    using True assms(1) by (rule vectorCopyKernel_vector_step)
  also have "\<dots> = Some (Inr (tr @ wide_copy vl src i))"
    unfolding nxt using assms(3) by (intro vectorCopyKernel_vector_exit) linarith
  finally show ?thesis using True by simp
next
  case False
  then show ?thesis by (simp add: vectorCopyKernel_vector_exit)
qed

lemma vectorCopyKernel_remaining_once:
  assumes "0 \<le> i"
    and "i + vectorCopyKernel_remaining_stride it < 2147483648"
    and "n \<le> i + vectorCopyKernel_remaining_stride it"
  shows "vectorCopyKernel_remaining n src it i tr =
         Some (Inr (tr @ (if i < n then [Load i, Store i (src i)] else [])))"
proof (cases "i < n")
  case True
  let ?t = "vectorCopyKernel_remaining_stride it"
  have "0 \<le> ?t" by (simp add: vectorCopyKernel_remaining_stride_def)
  then have nxt: "s32 (i + ?t) = i + ?t" using assms by (intro s32_id) linarith+
  have "vectorCopyKernel_remaining n src it i tr
      = vectorCopyKernel_remaining n src it (s32 (i + ?t)) (tr @ [Load i, Store i (src i)])"
    using True assms(1) by (rule vectorCopyKernel_remaining_step)
  also have "\<dots> = Some (Inr (tr @ [Load i, Store i (src i)]))"
    unfolding nxt using assms(3) by (intro vectorCopyKernel_remaining_exit) linarith
  finally show ?thesis using True by simp
next
  case False
  then show ?thesis by (simp add: vectorCopyKernel_remaining_exit)
qed

lemma vectorCopyKernel_thread:
  assumes n: "0 \<le> n"
    and vl: "vl = vectorLength T"
    and t1: "vl \<le> int (blockDim_x it * gridDim_x it)"
    and t2: "n div vl \<le> int (blockDim_x it * gridDim_x it)"
    and t3: "int (blockDim_x it * gridDim_x it) + n div vl * vl \<le> 2147483648"
    and t4: "n + int (blockDim_x it * gridDim_x it) + n mod vl \<le> 2147483649"
    and k: "linear_id it < blockDim_x it * gridDim_x it"
  shows "vectorCopyKernel T n src it = Some (Inr (vector_events vl n src (linear_id it)))"
proof -
  let ?k = "int (linear_id it)"
  let ?t = "int (blockDim_x it * gridDim_x it)"
  let ?nv = "n div vl"
  have vlpos: "0 < vl" using vl by (simp add: vectorLength_pos)
  have cd: "c_div n vl = ?nv" using n vlpos by (rule c_div_nonneg)
  have nv0: "0 \<le> ?nv" using n vlpos by (simp add: pos_imp_zdiv_nonneg_iff)
  have md: "n mod vl = n - ?nv * vl" using div_mult_mod_eq [of n vl] by linarith
  have lo: "?nv * vl \<le> n"
    using vlpos pos_mod_sign [of vl n] md by linarith
  have hi: "n < ?nv * vl + vl"
    using vlpos pos_mod_bound [of vl n] md by linarith
  have nvl0: "0 \<le> ?nv * vl" using nv0 vlpos by simp
  have "?nv * 1 \<le> ?nv * vl" using nv0 vlpos by (intro mult_left_mono) simp_all
  then have nvle: "?nv \<le> ?nv * vl" by simp
  have kt: "?k < ?t" using k by (simp only: of_nat_less_iff)
  have tid: "int (threadIdx_x it) \<le> ?k" by (simp add: linear_id_def)
  have "s32 ?k = ?k" using kt t3 nvl0 by (intro s32_id) linarith+
  then have idx: "s32 (int (threadIdx_x it + blockIdx_x it * blockDim_x it)) = ?k"
    by (simp only: linear_id_def)
  have p1: "vectorCopyKernel_vector vl n src it ?k [] =
        Some (Inr ([] @ (if ?k < c_div n vl then wide_copy vl src ?k else [])))"
  proof (cases "?k < ?nv")
    case True
    show ?thesis
      using True t2 t3 nvle cd by (intro vectorCopyKernel_vector_once) linarith+
  next
    case False
    then show ?thesis by (simp add: vectorCopyKernel_vector_exit cd)
  qed
  have i0: "s32 (?k + c_div n vl * vl) = ?k + ?nv * vl"
    unfolding cd using kt t3 nvl0 by (intro s32_id) linarith+
  have st: "vectorCopyKernel_remaining_stride it = ?t + int (threadIdx_x it)"
    by (simp add: vectorCopyKernel_remaining_stride_def)
  have p2: "vectorCopyKernel_remaining n src it (?k + ?nv * vl) tr =
        Some (Inr (tr @ (if ?k + ?nv * vl < n then [Load (?k + ?nv * vl), Store (?k + ?nv * vl) (src (?k + ?nv * vl))] else [])))" for tr
  proof (cases "?k + ?nv * vl < n")
    case True
    show ?thesis
      using True t1 t4 md hi nvl0 tid st
      by (intro vectorCopyKernel_remaining_once) linarith+
  next
    case False
    then show ?thesis by (simp add: vectorCopyKernel_remaining_exit)
  qed
  show ?thesis
    unfolding vectorCopyKernel_def vl [symmetric] Let_def idx p1 i0
    by (simp add: p2 cd vector_events_def)
qed

subsection \<open>One thread of memcpyFloatKernel\<close>


lemma upt_2: "[0 ..< nat 2] = [0, 1]"
  by (simp add: upt_rec)

lemma memcpyFloatKernel_thread:
  "memcpyFloatKernel 2 n src it = Some (Inr (memcpy_events n src it))"
  unfolding memcpyFloatKernel_def upt_2
  by (simp add: memcpyFloatKernel_load_def memcpyFloatKernel_store_def Let_def memcpy_events_def)

subsection \<open>Runs and their effect on memory\<close>

lemma store_indices_append: "store_indices (xs @ ys) = store_indices xs @ store_indices ys"
  by (induction xs rule: store_indices.induct) simp_all

lemma load_indices_append: "load_indices (xs @ ys) = load_indices xs @ load_indices ys"
  by (induction xs rule: load_indices.induct) simp_all

lemma store_indices_concat: "store_indices (concat xss) = concat (map store_indices xss)"
  by (induction xss) (simp_all add: store_indices_append)

lemma apply_events_append: "apply_events (xs @ ys) m = apply_events ys (apply_events xs m)"
  by (simp add: apply_events_def)

lemma apply_events_frame: "i \<notin> set (store_indices tr) \<Longrightarrow> apply_events tr m i = m i"
proof (induction tr arbitrary: m rule: store_indices.induct)
  case 1
  then show ?case by (simp add: apply_events_def)
next
  case (2 j tr)
  then show ?case by (simp add: apply_events_def)
next
  case (3 j v tr)
  then show ?case by (simp add: apply_events_def)
qed

lemma copies_from_append: "copies_from src (xs @ ys) \<longleftrightarrow> copies_from src xs \<and> copies_from src ys"
  by (induction src xs rule: copies_from.induct) simp_all

lemma copies_from_concat: "copies_from src (concat xss) \<longleftrightarrow> (\<forall>xs \<in> set xss. copies_from src xs)"
  by (induction xss) (simp_all add: copies_from_append)

lemma apply_events_copies:
  "copies_from src tr \<Longrightarrow> i \<in> set (store_indices tr) \<Longrightarrow> apply_events tr m i = src i"
proof (induction src tr arbitrary: m rule: copies_from.induct)
  case (1 src)
  then show ?case by simp
next
  case (2 src j tr)
  then show ?case by (simp add: apply_events_def)
next
  case (3 src j v tr)
  show ?case
  proof (cases "i \<in> set (store_indices tr)")
    case True
    then show ?thesis using 3 by (simp add: apply_events_def)
  next
    case False
    then have "i = j" using "3.prems" by simp
    moreover have "apply_events tr (m(j := v)) i = (m(j := v)) i"
      using False by (rule apply_events_frame)
    ultimately show ?thesis using "3.prems" by (simp add: apply_events_def)
  qed
qed

lemma copies_from_iff:
  "copies_from src tr \<longleftrightarrow> (\<forall>i v. Store i v \<in> set tr \<longrightarrow> v = src i)"
  by (induction src tr rule: copies_from.induct) auto

lemma set_store_indices: "set (store_indices tr) = {i. \<exists>v. Store i v \<in> set tr}"
  by (induction tr rule: store_indices.induct) auto

lemma apply_events_interleaving:
  assumes "set tr' = set tr" and "copies_from src tr"
  shows "apply_events tr' m = apply_events tr m"
proof
  fix i
  have c: "copies_from src tr'" using assms by (simp add: copies_from_iff)
  have s: "set (store_indices tr') = set (store_indices tr)"
    using assms(1) by (simp add: set_store_indices)
  show "apply_events tr' m i = apply_events tr m i"
  proof (cases "i \<in> set (store_indices tr)")
    case True
    then show ?thesis
      using apply_events_copies [OF c, of i m] apply_events_copies [OF assms(2), of i m] s
      by simp
  next
    case False
    then show ?thesis
      using apply_events_frame [of i tr' m] apply_events_frame [of i tr m] s by simp
  qed
qed

lemma launch_linear:
  assumes "\<And>it. it \<in> set (grid_items gd bd) \<Longrightarrow> body it = Some (Inr (f (linear_id it)))"
  shows "join_runs (map body (grid_items gd bd)) = Some (Inr (concat (map f [0 ..< gd * bd])))"
proof -
  have "join_runs (map body (grid_items gd bd))
      = Some (Inr (concat (map (\<lambda>it. f (linear_id it)) (grid_items gd bd))))"
    using assms by (rule join_runs_all_ok)
  also have "map (\<lambda>it. f (linear_id it)) (grid_items gd bd) = map f (map linear_id (grid_items gd bd))"
    by simp
  finally show ?thesis by (simp only: linear_id_grid)
qed

lemma concat_map_if_upt:
  "m \<le> t \<Longrightarrow> concat (map (\<lambda>k. if k < m then g k else []) [0 ..< t]) = concat (map g [0 ..< m])"
proof (induction t)
  case 0
  then show ?case by simp
next
  case (Suc t)
  show ?case
  proof (cases "m = Suc t")
    case True
    have h: "map (\<lambda>k. if k < Suc t then g k else []) [0 ..< t] = map g [0 ..< t]"
      by (rule map_cong) simp_all
    have "concat (map (\<lambda>k. if k < Suc t then g k else []) [0 ..< Suc t])
        = concat (map (\<lambda>k. if k < Suc t then g k else []) [0 ..< t]) @ g t"
      by simp
    also have "\<dots> = concat (map g [0 ..< t]) @ g t"
      by (simp only: h)
    also have "\<dots> = concat (map g [0 ..< Suc t])"
      by simp
    finally show ?thesis by (simp only: True)
  next
    case False
    then have "m \<le> t" using Suc.prems by simp
    then show ?thesis using Suc.IH by simp
  qed
qed

subsection \<open>Bounds on the block count\<close>

lemma group_count_ge1: "0 \<le> N \<Longrightarrow> 0 < G \<Longrightarrow> 1 \<le> group_count N G"
  using pos_imp_zdiv_nonneg_iff [of G N] pos_imp_zdiv_nonneg_iff [of 64 "N div G - 1"]
  by (simp add: group_count_eq)

lemma ceil64_covers: "(x::int) \<le> (x - 1) div 64 * 64 + 64"
  using div_mult_mod_eq [of "x - 1" 64] pos_mod_bound [of 64 "x - 1"] by linarith

lemma ceil64_least: "x \<le> g * 64 \<Longrightarrow> (x - 1) div 64 + 1 \<le> (g::int)"
  using div_mult_mod_eq [of "x - 1" 64] pos_mod_sign [of 64 "x - 1"] by linarith

lemma group_count_covers: "0 \<le> N \<Longrightarrow> 0 < G \<Longrightarrow> N div G \<le> group_count N G * 64"
  using ceil64_covers [of "N div G"] by (simp add: group_count_eq)

lemma group_count_least:
  "0 \<le> N \<Longrightarrow> 0 < G \<Longrightarrow> 1 \<le> g \<Longrightarrow> N div G \<le> g * 64 \<Longrightarrow> group_count N G \<le> g"
  using ceil64_least [of "N div G" g] by (simp add: group_count_eq)

lemma memcpy_events_loads:
  "load_indices (memcpy_events n src it) =
     filter (\<lambda>k. k < u32 n) [memcpyFloatKernel_slot 2 it 0, memcpyFloatKernel_slot 2 it 1]"
  by (simp add: memcpy_events_def Let_def load_indices_append)

lemma memcpy_events_stores:
  "store_indices (memcpy_events n src it) =
     filter (\<lambda>k. k < u32 n) [memcpyFloatKernel_slot 2 it 0, memcpyFloatKernel_slot 2 it 1]"
  by (simp add: memcpy_events_def Let_def store_indices_append)

lemma memcpy_events_copies: "copies_from src (memcpy_events n src it)"
  by (simp add: memcpy_events_def Let_def copies_from_append)

lemma memcpyFloatKernel_slot_nonneg: "0 \<le> memcpyFloatKernel_slot numElem it i"
  by (simp add: memcpyFloatKernel_slot_def u32_bounds)

section \<open>Launches of the entry points\<close>

subsection \<open>The scalarCopy launch\<close>

lemma grid_items_linear_id:
  assumes "it \<in> set (grid_items gd bd)"
  shows "linear_id it < bd * gd"
proof -
  have t: "threadIdx_x it < bd" and b: "blockIdx_x it < gd" and d: "blockDim_x it = bd"
    using assms by (simp_all add: grid_items_set)
  have "Suc (blockIdx_x it) * bd \<le> gd * bd" using b by (intro mult_le_mono1) simp
  then show ?thesis using t d by (simp add: linear_id_def mult.commute)
qed

lemma launch_64:
  assumes "1 \<le> nb" and "nb < 4294967296"
  shows "launch nb numthread body = join_runs (map body (grid_items (nat nb) 64))"
  using assms by (simp add: launch_def numthread_def u32_id)

lemma scalarCopy_numblock_bounds:
  assumes "0 \<le> n" and "n \<le> 1073741824"
  shows "1 \<le> scalarCopy_numblock n" and "n \<le> scalarCopy_numblock n * 64"
    and "scalarCopy_numblock n \<le> 16777216"
proof -
  show "1 \<le> scalarCopy_numblock n"
    using assms group_count_ge1 [of n 1] by (simp add: numblock_group_count)
  show "n \<le> scalarCopy_numblock n * 64"
    using assms group_count_covers [of n 1] by (simp add: numblock_group_count)
  show "scalarCopy_numblock n \<le> 16777216"
    using assms group_count_least [of n 1 16777216] by (simp add: numblock_group_count)
qed

lemma scalarCopy_run_grid:
  assumes "0 \<le> n" and "n \<le> 1073741824"
  shows "scalarCopy_run n src =
     Some (Inr (concat (map (scalar_events n src) [0 ..< nat (scalarCopy_numblock n) * 64])))"
proof -
  let ?nb = "scalarCopy_numblock n"
  note b = scalarCopy_numblock_bounds [OF assms]
  have l: "scalarCopy_run n src = join_runs (map (scalarCopyKernel n src) (grid_items (nat ?nb) 64))"
    unfolding scalarCopy_run_def using b by (intro launch_64) simp_all
  have "scalarCopyKernel n src it = Some (Inr (scalar_events n src (linear_id it)))"
    if "it \<in> set (grid_items (nat ?nb) 64)" for it
  proof -
    have d: "blockDim_x it = 64" "gridDim_x it = nat ?nb"
      using that by (simp_all add: grid_items_set)
    have t: "int (blockDim_x it * gridDim_x it) = 64 * ?nb" using b d by simp
    show ?thesis
    proof (rule scalarCopyKernel_thread)
      show "n \<le> int (blockDim_x it * gridDim_x it)" unfolding t using b by simp
      show "int (blockDim_x it * gridDim_x it) \<le> 1073741824" unfolding t using b by simp
      show "linear_id it < blockDim_x it * gridDim_x it"
        using grid_items_linear_id [OF that] d by simp
    qed
  qed
  then show ?thesis unfolding l by (rule launch_linear)
qed

lemma scalarCopy_run_eq:
  assumes "0 \<le> n" and "n \<le> 1073741824"
  shows "scalarCopy_run n src =
     Some (Inr (concat (map (\<lambda>k. [Load (int k), Store (int k) (src (int k))]) [0 ..< nat n])))"
proof -
  note b = scalarCopy_numblock_bounds [OF assms]
  have le: "nat n \<le> nat (scalarCopy_numblock n) * 64" using b assms by linarith
  have "scalar_events n src = (\<lambda>k. if k < nat n then [Load (int k), Store (int k) (src (int k))] else [])"
    using assms by (auto simp: scalar_events_def fun_eq_iff)
  then show ?thesis
    using scalarCopy_run_grid [OF assms, of src] concat_map_if_upt [OF le] by simp
qed

lemma store_indices_scalar:
  "store_indices (concat (map (\<lambda>k. [Load (int k), Store (int k) (src (int k))]) [0 ..< m]))
   = map int [0 ..< m]"
  by (induction m) (simp_all add: store_indices_append)

lemma copies_from_scalar:
  "copies_from src (concat (map (\<lambda>k. [Load (int k), Store (int k) (src (int k))]) [0 ..< m]))"
  by (simp add: copies_from_concat)

lemma apply_events_copy_range:
  assumes "copies_from src tr" and "set (store_indices tr) = {i. 0 \<le> i \<and> i < n}"
  shows "apply_events tr dst = (\<lambda>i. if 0 \<le> i \<and> i < n then src i else dst i)"
proof
  fix i
  show "apply_events tr dst i = (if 0 \<le> i \<and> i < n then src i else dst i)"
  proof (cases "0 \<le> i \<and> i < n")
    case True
    then have "i \<in> set (store_indices tr)" using assms(2) by simp
    then show ?thesis using True apply_events_copies [OF assms(1)] by simp
  next
    case False
    then have "i \<notin> set (store_indices tr)" using assms(2) by simp
    then have "apply_events tr dst i = dst i" by (rule apply_events_frame)
    then show ?thesis using False by auto
  qed
qed

lemma set_map_int_upt: "0 \<le> n \<Longrightarrow> set (map int [0 ..< nat n]) = {i. 0 \<le> i \<and> i < n}"
proof -
  assume n: "0 \<le> n"
  have "i \<in> int ` {0 ..< nat n} \<longleftrightarrow> 0 \<le> i \<and> i < n" for i
  proof
    assume "i \<in> int ` {0 ..< nat n}"
    then show "0 \<le> i \<and> i < n" using n by auto
  next
    assume a: "0 \<le> i \<and> i < n"
    then have "nat i \<in> {0 ..< nat n}" by auto
    moreover have "i = int (nat i)" using a by simp
    ultimately show "i \<in> int ` {0 ..< nat n}" by (rule rev_image_eqI)
  qed
  then show ?thesis by auto
qed

lemma scalarCopy_eq:
  assumes "0 \<le> n" and "n \<le> 1073741824"
  shows "scalarCopy n src dst = Some (Inr (\<lambda>i. if 0 \<le> i \<and> i < n then src i else dst i))"
proof -
  let ?tr = "concat (map (\<lambda>k. [Load (int k), Store (int k) (src (int k))]) [0 ..< nat n])"
  have "set (store_indices ?tr) = {i. 0 \<le> i \<and> i < n}"
    using assms(1) by (simp only: store_indices_scalar set_map_int_upt)
  then have "apply_events ?tr dst = (\<lambda>i. if 0 \<le> i \<and> i < n then src i else dst i)"
    using copies_from_scalar by (rule apply_events_copy_range [rotated])
  then show ?thesis
    by (simp add: scalarCopy_def finish_def scalarCopy_run_eq [OF assms])
qed

subsection \<open>The vectorCopy launch\<close>

lemma vectorCopy_fits_zero: "vectorCopy_fits T 0"
  by (cases T) simp_all

lemma vectorCopy_numblock_bounds:
  assumes "0 \<le> n" and "vectorCopy_fits T n"
  shows "1 \<le> vectorCopy_numblock T n"
    and "n div vectorLength T \<le> vectorCopy_numblock T n * 64"
    and "vectorCopy_numblock T n * 64 + n div vectorLength T * vectorLength T \<le> 2147483648"
    and "n + vectorCopy_numblock T n * 64 + n mod vectorLength T \<le> 2147483649"
proof -
  have p: "0 < vectorLength T" by (rule vectorLength_pos)
  show "1 \<le> vectorCopy_numblock T n"
    using assms p group_count_ge1 [of n "vectorLength T"] by (simp add: numblock_group_count)
  show "n div vectorLength T \<le> vectorCopy_numblock T n * 64"
    using assms p group_count_covers [of n "vectorLength T"] by (simp add: numblock_group_count)
  have md: "n mod vectorLength T = n - n div vectorLength T * vectorLength T"
    using div_mult_mod_eq [of n "vectorLength T"] by linarith
  have lo: "0 \<le> n mod vectorLength T" using p by simp
  have hi: "n mod vectorLength T < vectorLength T" using p by (rule pos_mod_bound)
  have nb: "vectorCopy_numblock T n * 64 + n \<le> 2147483648
      \<and> (n + vectorCopy_numblock T n * 64 + vectorLength T \<le> 2147483650
         \<or> n mod vectorLength T = 0)"
  proof (cases T)
    case T_int
    from assms(2) T_int consider "n \<le> 1717986878" | "n = 1717986880" by auto
    then show ?thesis
    proof cases
      case 1
      then have "n div 4 \<le> 6710887 * 64" by simp
      then have "vectorCopy_numblock T n \<le> 6710887"
        using assms(1) group_count_least [of n 4 6710887]
        by (simp add: numblock_group_count T_int vectorLength_simps)
      then show ?thesis using 1 T_int by (simp add: vectorLength_simps)
    next
      case 2
      then show ?thesis
        by (simp add: T_int vectorCopy_numblock_def vectorLength_simps numthread_def c_div_def)
    qed
  next
    case T_long_long_int
    then have le: "n \<le> 1431655744" using assms(2) by simp
    then have "n div 2 \<le> 11184811 * 64" by simp
    then have "vectorCopy_numblock T n \<le> 11184811"
      using assms(1) group_count_least [of n 2 11184811]
      by (simp add: numblock_group_count T_long_long_int vectorLength_simps)
    then show ?thesis using le T_long_long_int by (simp add: vectorLength_simps)
  qed
  show "vectorCopy_numblock T n * 64 + n div vectorLength T * vectorLength T \<le> 2147483648"
    using nb md lo by linarith
  show "n + vectorCopy_numblock T n * 64 + n mod vectorLength T \<le> 2147483649"
    using nb hi by linarith
qed

lemma vectorLength_le: "vectorLength T \<le> 4"
  by (cases T) (simp_all add: vectorLength_simps)

lemma vectorCopy_run_grid:
  assumes "0 \<le> n" and "vectorCopy_fits T n"
  shows "vectorCopy_run T n src =
     Some (Inr (concat (map (vector_events (vectorLength T) n src)
                  [0 ..< nat (vectorCopy_numblock T n) * 64])))"
proof -
  let ?nb = "vectorCopy_numblock T n"
  note b = vectorCopy_numblock_bounds [OF assms]
  have nn: "0 \<le> n div vectorLength T * vectorLength T"
    using assms(1) vectorLength_pos [of T] by (simp add: pos_imp_zdiv_nonneg_iff)
  have l: "vectorCopy_run T n src
      = join_runs (map (vectorCopyKernel T n src) (grid_items (nat ?nb) 64))"
    unfolding vectorCopy_run_def using b nn by (intro launch_64) linarith+
  have "vectorCopyKernel T n src it
      = Some (Inr (vector_events (vectorLength T) n src (linear_id it)))"
    if "it \<in> set (grid_items (nat ?nb) 64)" for it
  proof -
    have d: "blockDim_x it = 64" "gridDim_x it = nat ?nb"
      using that by (simp_all add: grid_items_set)
    have t: "int (blockDim_x it * gridDim_x it) = ?nb * 64" using b d by simp
    show ?thesis
    proof (rule vectorCopyKernel_thread)
      show "0 \<le> n" by (rule assms)
      show "vectorLength T = vectorLength T" ..
      show "vectorLength T \<le> int (blockDim_x it * gridDim_x it)"
        unfolding t using b vectorLength_le [of T] by linarith
      show "n div vectorLength T \<le> int (blockDim_x it * gridDim_x it)"
        unfolding t using b by simp
      show "int (blockDim_x it * gridDim_x it) + n div vectorLength T * vectorLength T
          \<le> 2147483648"
        unfolding t using b by simp
      show "n + int (blockDim_x it * gridDim_x it) + n mod vectorLength T \<le> 2147483649"
        unfolding t using b by simp
      show "linear_id it < blockDim_x it * gridDim_x it"
        using grid_items_linear_id [OF that] d by simp
    qed
  qed
  then show ?thesis unfolding l by (rule launch_linear)
qed

subsection \<open>The stores of a vectorCopy launch\<close>









lemma mset_concat_map_append:
  "mset (concat (map (\<lambda>k. A k @ B k) ks)) = mset (concat (map A ks)) + mset (concat (map B ks))"
  by (induction ks) simp_all

lemma concat_wide_words:
  assumes "0 < vl"
  shows "concat (map (\<lambda>k. wide_word vl (int k)) [0 ..< m]) = [0 .. int m * vl - 1]"
proof (induction m)
  case 0
  then show ?case by simp
next
  case (Suc m)
  have "0 \<le> int m * vl" using assms by simp
  then have "[0 .. int (Suc m) * vl - 1] = [0 .. int m * vl - 1] @ [int m * vl .. int (Suc m) * vl - 1]"
    using assms by (intro upto_split1) (simp_all add: algebra_simps)
  moreover have "wide_word vl (int m) = [int m * vl .. int (Suc m) * vl - 1]"
    by (simp add: wide_word_def algebra_simps)
  ultimately show ?case using Suc by simp
qed

lemma map_shift_upt: "map (\<lambda>k. int k + c) [0 ..< r] = [c .. c + int r - 1]"
proof (induction r)
  case 0
  then show ?case by simp
next
  case (Suc r)
  have "[c .. c + int (Suc r) - 1] = [c .. c + int r - 1] @ [c + int r]"
    using upto_rec2 [of c "c + int r"] by simp
  then show ?case using Suc by simp
qed


lemma set_upto_range: "set [0 .. n - 1] = {i. 0 \<le> i \<and> i < (n::int)}"
  by auto



lemma set_mset_upto:
  assumes "mset xs = mset [0 .. n - 1]"
  shows "set xs = {i. 0 \<le> i \<and> i < (n::int)}"
  using mset_eq_setD [OF assms] by (simp only: set_upto_range)



subsection \<open>The memcpyFloat launch\<close>

lemma memcpyFloat_launch:
  "launch (memcpyFloat_numblock n) numthread
     (memcpyFloatKernel NUM_ELEM (c_div n 4) (float4_cast src))
   = Some (Inr (concat (map (memcpy_events (c_div n 4) (float4_cast src))
        (grid_items (nat (u32 (memcpyFloat_numblock n))) (nat (u32 numthread))))))"
  unfolding launch_def NUM_ELEM_def
  by (rule join_runs_all_ok) (rule memcpyFloatKernel_thread)

lemma memcpyFloat_run_eq:
  "memcpyFloat_run n src
   = Some (Inr (concat (map float_events (concat (map (memcpy_events (c_div n 4) (float4_cast src))
        (grid_items (nat (u32 (memcpyFloat_numblock n))) (nat (u32 numthread))))))))"
  by (simp add: memcpyFloat_run_def memcpyFloat_launch)

lemma store_indices_float_events:
  "set (store_indices (concat (map float_events tr)))
   = (\<Union>k \<in> set (store_indices tr). {4 * k, 4 * k + 1, 4 * k + 2, 4 * k + 3})"
proof (induction tr rule: store_indices.induct)
  case 1
  then show ?case by simp
next
  case (2 i tr)
  then show ?case by (simp add: store_indices_append)
next
  case (3 i v tr)
  then show ?case by (auto simp: store_indices_append)
qed

lemma load_indices_float_events:
  "set (load_indices (concat (map float_events tr)))
   = (\<Union>k \<in> set (load_indices tr). {4 * k, 4 * k + 1, 4 * k + 2, 4 * k + 3})"
proof (induction tr rule: load_indices.induct)
  case 1
  then show ?case by simp
next
  case (2 i tr)
  then show ?case by (auto simp: load_indices_append)
next
  case (3 i v tr)
  then show ?case by (simp add: load_indices_append)
qed

lemma memcpy_events_store_bound:
  assumes "0 \<le> n" and "k \<in> set (store_indices (memcpy_events n src it))"
  shows "0 \<le> k \<and> k < n"
proof -
  have "k < u32 n" and "0 \<le> k"
    using assms(2) memcpyFloatKernel_slot_nonneg [of 2 it 0] memcpyFloatKernel_slot_nonneg [of 2 it 1]
    by (auto simp: memcpy_events_stores split: if_splits)
  then show ?thesis using u32_le [OF assms(1)] by linarith
qed

lemma memcpyFloat_run_store_bound:
  assumes "0 \<le> n" and "memcpyFloat_run n src = Some (Inr tr)"
    and "j \<in> set (store_indices tr)"
  shows "0 \<le> j \<and> j < 4 * c_div n 4"
proof -
  let ?tr4 = "concat (map (memcpy_events (c_div n 4) (float4_cast src))
        (grid_items (nat (u32 (memcpyFloat_numblock n))) (nat (u32 numthread))))"
  have n4: "0 \<le> c_div n 4" using assms(1) by (simp add: c_div_nonneg)
  have tr: "tr = concat (map float_events ?tr4)"
    using assms(2) by (simp add: memcpyFloat_run_eq)
  then obtain k where k: "k \<in> set (store_indices ?tr4)" and j: "j \<in> {4 * k, 4 * k + 1, 4 * k + 2, 4 * k + 3}"
    using assms(3) unfolding tr store_indices_float_events by blast
  from k obtain it where "k \<in> set (store_indices (memcpy_events (c_div n 4) (float4_cast src) it))"
    by (auto simp: store_indices_concat)
  then have "0 \<le> k \<and> k < c_div n 4" using n4 by (intro memcpy_events_store_bound)
  then show ?thesis using j by auto
qed

lemma memcpyFloat_numblock_bounds:
  assumes "0 \<le> n" and "n < 2147483648"
  shows "1 \<le> memcpyFloat_numblock n" and "memcpyFloat_numblock n \<le> 4194304"
proof -
  show "1 \<le> memcpyFloat_numblock n"
    using assms group_count_ge1 [of n 8] by (simp add: numblock_group_count)
  have "n div 8 \<le> 268435456" using assms by simp
  then show "memcpyFloat_numblock n \<le> 4194304"
    using assms group_count_least [of n 8 4194304] by (simp add: numblock_group_count)
qed

lemma memcpyFloatKernel_slot_grid:
  assumes "it \<in> set (grid_items gd 64)" and "int gd \<le> 4194304" and "i \<le> 1"
  shows "memcpyFloatKernel_slot 2 it i = word_slot (linear_id it) + 64 * int i"
proof -
  have t: "threadIdx_x it < 64" and b: "blockIdx_x it < gd" and d: "blockDim_x it = 64"
    using assms(1) by (simp_all add: grid_items_set)
  let ?t = "int (threadIdx_x it)" and ?b = "int (blockIdx_x it)"
  have bb: "?b < 4194304" using b assms(2) by linarith
  have dv: "(?t + ?b * 64) div 64 = ?b" using t by simp
  have ix: "memcpyFloatKernel_index 2 it = ?t + 128 * ?b"
    unfolding memcpyFloatKernel_index_def d using t bb by (subst s32_id) simp_all
  have "u32 (?t + 128 * ?b + int i * 64) = ?t + 128 * ?b + int i * 64"
    using t bb assms(3) by (intro u32_id) simp_all
  then show ?thesis
    unfolding memcpyFloatKernel_slot_def ix d word_slot_def linear_id_def
    using dv by simp
qed

lemma memcpy_events_stores_grid:
  assumes "it \<in> set (grid_items gd 64)" and "int gd \<le> 4194304"
    and "0 \<le> n" and "n < 4294967296"
  shows "store_indices (memcpy_events n src it)
       = filter (\<lambda>k. k < n) [word_slot (linear_id it), word_slot (linear_id it) + 64]"
  using memcpyFloatKernel_slot_grid [OF assms(1,2), of 0]
    memcpyFloatKernel_slot_grid [OF assms(1,2), of 1] u32_id [OF assms(3,4)]
  by (simp add: memcpy_events_stores)

lemma map_linear_grid:
  "map (\<lambda>it. g (linear_id it)) (grid_items gd bd) = map g [0 ..< gd * bd]"
proof -
  have "map (\<lambda>it. g (linear_id it)) (grid_items gd bd) = map g (map linear_id (grid_items gd bd))"
    by simp
  then show ?thesis by (simp only: linear_id_grid)
qed

lemma word_slot_block: "t < 64 \<Longrightarrow> word_slot (t + m * 64) = int t + 128 * int m"
  by (simp add: word_slot_def)

lemma mset_word_slots:
  "mset (concat (map (\<lambda>l. [word_slot l, word_slot l + 64]) [0 ..< m * 64]))
   = mset [0 .. 128 * int m - 1]"
proof (induction m)
  case 0
  then show ?case by simp
next
  case (Suc m)
  let ?c = "128 * int m"
  have u: "[0 ..< Suc m * 64] = [0 ..< m * 64] @ map (\<lambda>t. t + m * 64) [0 ..< 64]"
    using upt_add_eq_append [of 0 "m * 64" 64] map_add_upt [of "m * 64" 64]
    by (simp add: add.commute)
  have blk: "map (\<lambda>l. [word_slot l, word_slot l + 64]) (map (\<lambda>t. t + m * 64) [0 ..< 64])
      = map (\<lambda>t. [int t + ?c] @ [int t + (?c + 64)]) [0 ..< 64]"
    by (simp add: word_slot_block)
  have "mset (concat (map (\<lambda>t. [int t + ?c] @ [int t + (?c + 64)]) [0 ..< 64]))
      = mset (concat (map (\<lambda>t. [int t + ?c]) [0 ..< 64]))
        + mset (concat (map (\<lambda>t. [int t + (?c + 64)]) [0 ..< 64]))"
    by (rule mset_concat_map_append)
  also have "concat (map (\<lambda>t. [int t + ?c]) [0 ..< 64]) = map (\<lambda>t. int t + ?c) [0 ..< 64]"
    by simp
  also have "concat (map (\<lambda>t. [int t + (?c + 64)]) [0 ..< 64]) = map (\<lambda>t. int t + (?c + 64)) [0 ..< 64]"
    by simp
  also have "map (\<lambda>t. int t + ?c) [0 ..< 64] = [?c .. ?c + 63]"
    using map_shift_upt [of ?c 64] by (simp add: add.commute)
  also have "map (\<lambda>t. int t + (?c + 64)) [0 ..< 64] = [?c + 64 .. ?c + 127]"
    using map_shift_upt [of "?c + 64" 64] by (simp add: add.commute)
  also have "mset [?c .. ?c + 63] + mset [?c + 64 .. ?c + 127] = mset [?c .. ?c + 127]"
    using upto_split2 [of ?c "?c + 63" "?c + 127"] by (simp add: add.commute)
  finally have b: "mset (concat (map (\<lambda>l. [word_slot l, word_slot l + 64])
        (map (\<lambda>t. t + m * 64) [0 ..< 64]))) = mset [?c .. ?c + 127]"
    unfolding blk .
  have "[0 .. 128 * int (Suc m) - 1] = [0 .. ?c - 1] @ [?c .. ?c + 127]"
    using upto_split1 [of 0 ?c "?c + 127"] by (simp add: algebra_simps)
  then show ?case unfolding u using Suc b by simp
qed

lemma filter_less_upto:
  assumes "0 \<le> a"
  shows "filter (\<lambda>k. k < a) [0 .. b - 1] = [0 .. min a b - 1]"
proof (cases "b \<le> a")
  case True
  then have "filter (\<lambda>k. k < a) [0 .. b - 1] = [0 .. b - 1]" by (intro filter_True) auto
  then show ?thesis using True by (simp add: min_def)
next
  case False
  then have "[0 .. b - 1] = [0 .. a - 1] @ [a .. b - 1]"
    using assms by (intro upto_split1) simp_all
  moreover have "filter (\<lambda>k. k < a) [0 .. a - 1] = [0 .. a - 1]" by (intro filter_True) auto
  moreover have "filter (\<lambda>k. k < a) [a .. b - 1] = []" by (intro filter_False) auto
  ultimately show ?thesis using False by (simp add: min_def)
qed

lemma mset_concat_map:
  "mset (concat (map g xs)) = (\<Sum>x\<in>#mset xs. mset (g x))"
  by (induction xs) simp_all

lemma mset_concat_map_cong:
  "mset xs = mset ys \<Longrightarrow> mset (concat (map g xs)) = mset (concat (map g ys))"
  by (simp add: mset_concat_map)

lemma store_indices_float_concat:
  "store_indices (concat (map float_events tr)) = concat (map (wide_word 4) (store_indices tr))"
proof (induction tr rule: store_indices.induct)
  case 1
  then show ?case by simp
next
  case (2 i tr)
  then show ?case by (simp add: store_indices_append)
next
  case (3 i v tr)
  have "wide_word 4 i = [4 * i, 4 * i + 1, 4 * i + 2, 4 * i + 3]"
    by (simp add: wide_word_def upto_rec1 mult.commute)
  then show ?case using 3 by (simp add: store_indices_append)
qed

lemma copies_from_float_events:
  "copies_from (float4_cast src) tr \<Longrightarrow> copies_from src (concat (map float_events tr))"
  by (induction "float4_cast src" tr rule: copies_from.induct)
     (simp_all add: copies_from_append float4_cast_def)

lemma upto_as_upt: "0 \<le> K \<Longrightarrow> [0 .. K - 1] = map int [0 ..< nat K]"
  using map_shift_upt [of 0 "nat K"] by simp

lemma mset_store_indices_memcpyFloat:
  assumes "0 \<le> n" and "n < 2147483648"
  shows "\<exists>tr. memcpyFloat_run n src = Some (Inr tr) \<and> copies_from src tr \<and>
     mset (store_indices tr) = mset [0 .. 4 * min (n div 4) (128 * memcpyFloat_numblock n) - 1]"
proof -
  let ?nb = "memcpyFloat_numblock n"
  let ?n4 = "n div 4"
  let ?g = "grid_items (nat ?nb) 64"
  let ?tr4 = "concat (map (memcpy_events ?n4 (float4_cast src)) ?g)"
  let ?K = "min ?n4 (128 * ?nb)"
  note b = memcpyFloat_numblock_bounds [OF assms]
  have cd: "c_div n 4 = ?n4" using assms(1) by (simp add: c_div_nonneg)
  have n4: "0 \<le> ?n4" "?n4 < 4294967296" using assms by simp_all
  have K0: "0 \<le> ?K" using n4 b by simp
  have gb: "int (nat ?nb) \<le> 4194304" using b by simp
  have run: "memcpyFloat_run n src = Some (Inr (concat (map float_events ?tr4)))"
    using b by (simp add: memcpyFloat_run_eq cd u32_id numthread_def)
  have cp: "copies_from src (concat (map float_events ?tr4))"
    by (intro copies_from_float_events) (simp add: copies_from_concat memcpy_events_copies)
  have "store_indices ?tr4
      = concat (map (\<lambda>it. filter (\<lambda>k. k < ?n4) [word_slot (linear_id it), word_slot (linear_id it) + 64]) ?g)"
    unfolding store_indices_concat map_map o_def
    using gb n4 by (intro arg_cong [where f = concat] map_cong refl memcpy_events_stores_grid)
  also have "\<dots> = concat (map (\<lambda>l. filter (\<lambda>k. k < ?n4) [word_slot l, word_slot l + 64]) [0 ..< nat ?nb * 64])"
    using map_linear_grid [of "\<lambda>l. filter (\<lambda>k. k < ?n4) [word_slot l, word_slot l + 64]" "nat ?nb" 64]
    by simp
  also have "\<dots> = filter (\<lambda>k. k < ?n4) (concat (map (\<lambda>l. [word_slot l, word_slot l + 64]) [0 ..< nat ?nb * 64]))"
    by (simp add: filter_concat o_def)
  finally have "mset (store_indices ?tr4) = filter_mset (\<lambda>k. k < ?n4) (mset [0 .. 128 * int (nat ?nb) - 1])"
    by (simp only: mset_filter mset_word_slots)
  also have "\<dots> = mset (filter (\<lambda>k. k < ?n4) [0 .. 128 * ?nb - 1])" using b by simp
  also have "\<dots> = mset [0 .. ?K - 1]" using n4 by (simp only: filter_less_upto)
  finally have w: "mset (store_indices ?tr4) = mset (map int [0 ..< nat ?K])"
    using K0 by (simp only: upto_as_upt)
  have "mset (store_indices (concat (map float_events ?tr4)))
      = mset (concat (map (wide_word 4) (map int [0 ..< nat ?K])))"
    unfolding store_indices_float_concat using w by (rule mset_concat_map_cong)
  also have "\<dots> = mset [0 .. int (nat ?K) * 4 - 1]"
    using concat_wide_words [of 4 "nat ?K"] by (simp add: o_def)
  finally have "mset (store_indices (concat (map float_events ?tr4))) = mset [0 .. 4 * ?K - 1]"
    using K0 by (simp add: mult.commute)
  then show ?thesis using run cp by blast
qed

subsection \<open>Launches that overflow the index arithmetic\<close>







lemma memcpyFloat_eq:
  assumes "0 \<le> n" and "n < 2147483648"
  shows "memcpyFloat n src dst = Some (Inr (\<lambda>i.
           if 0 \<le> i \<and> i < 4 * min (n div 4) (128 * memcpyFloat_numblock n) then src i else dst i))"
proof -
  obtain tr where run: "memcpyFloat_run n src = Some (Inr tr)" and cp: "copies_from src tr"
    and ms: "mset (store_indices tr) = mset [0 .. 4 * min (n div 4) (128 * memcpyFloat_numblock n) - 1]"
    using mset_store_indices_memcpyFloat [OF assms] by blast
  have "set (store_indices tr) = {i. 0 \<le> i \<and> i < 4 * min (n div 4) (128 * memcpyFloat_numblock n)}"
    using ms by (rule set_mset_upto)
  with cp have "apply_events tr dst = (\<lambda>i.
           if 0 \<le> i \<and> i < 4 * min (n div 4) (128 * memcpyFloat_numblock n) then src i else dst i)"
    by (rule apply_events_copy_range)
  then show ?thesis by (simp add: memcpyFloat_def finish_def run)
qed


lemma memcpyFloat_run_none:
  assumes "0 \<le> n" and "n < 4"
  shows "memcpyFloat_run n src = Some (Inr [])"
proof -
  have cd: "c_div n 4 = 0" using assms by (simp add: c_div_nonneg)
  have "memcpy_events 0 w it = []" for w :: "int \<Rightarrow> 'a float4_t" and it
    using memcpyFloatKernel_slot_nonneg [of 2 it 0] memcpyFloatKernel_slot_nonneg [of 2 it 1]
    by (simp add: memcpy_events_def Let_def u32_def)
  then show ?thesis by (simp add: memcpyFloat_run_eq cd)
qed

lemma vector_events_zero: "vector_events vl 0 src k = []"
  by (simp add: vector_events_def)

section \<open>The claims\<close>

text \<open>
  Claim C1.  The claim asks that after every entry point the elements \<open>[0, N)\<close> of the
  destination equal those of the source.  For \<open>memcpyFloat\<close> with \<open>N = 516\<close> the buffers hold
  129 words of four floats.  The entry point computes one block, whose 64 threads copy two
  words each, the words 0 to 127: the word 128, the floats 512 to 515, is left as it was,
  whatever the buffers hold.
\<close>

theorem memcpyFloat_516_last_word:
  "memcpyFloat_numblock 516 = 1 \<and> c_div 516 4 = 129
   \<and> memcpyFloat 516 src dst = Some (Inr (\<lambda>i. if 0 \<le> i \<and> i < 512 then src i else dst i))
   \<and> (\<exists>m. memcpyFloat 516 (\<lambda>i. 1) (\<lambda>i. 0::int) = Some (Inr m) \<and> m 511 = 1 \<and> m 512 = 0)"
proof -
  have nb: "memcpyFloat_numblock 516 = 1"
    by (simp add: memcpyFloat_numblock_def NUM_ELEM_def numthread_def c_div_def)
  have cd: "c_div 516 4 = 129" by (simp add: c_div_def)
  have m: "memcpyFloat 516 s d = Some (Inr (\<lambda>i. if 0 \<le> i \<and> i < 512 then s i else d i))"
    for s d :: "int \<Rightarrow> 'b"
    using memcpyFloat_eq [of 516 s d] by (simp add: nb)
  have "\<exists>m. memcpyFloat 516 (\<lambda>i. 1) (\<lambda>i. 0::int) = Some (Inr m) \<and> m 511 = 1 \<and> m 512 = 0"
    by (simp add: m)
  then show ?thesis using nb cd m by blast
qed

text \<open>
  Claim C2, as amended.  For every \<open>N \<ge> 0\<close> the block counts of the three entry points
  are the formula \<open>(N/G - 1)/64 + 1\<close> of the launch configurator, with \<open>G = 1\<close> for
  \<open>scalarCopy\<close>, \<open>G = vectorLength\<close> for \<open>vectorCopy\<close> and \<open>G = 4 * NUM_ELEM\<close> for
  \<open>memcpyFloat\<close>, the divisions being those of C++.  For every \<open>G > 0\<close> the count is at
  least 1 and is the least count \<open>g \<ge> 1\<close> with \<open>g * 64 \<ge> N/G\<close>; it satisfies
  \<open>count * 64 * G \<ge> N\<close> whenever \<open>G\<close> divides \<open>N\<close>.
\<close>

theorem launch_configurator:
  assumes "0 \<le> N"
  shows "scalarCopy_numblock N = group_count N 1
       \<and> vectorCopy_numblock T N = group_count N (vectorLength T)
       \<and> memcpyFloat_numblock N = group_count N (4 * NUM_ELEM)
       \<and> (\<forall>G. 0 < G \<longrightarrow>
             1 \<le> group_count N G
           \<and> c_div N G \<le> group_count N G * numthread
           \<and> (\<forall>g. 1 \<le> g \<and> c_div N G \<le> g * numthread \<longrightarrow> group_count N G \<le> g)
           \<and> (G dvd N \<longrightarrow> N \<le> group_count N G * numthread * G))"
proof -
  have "1 \<le> group_count N G \<and> c_div N G \<le> group_count N G * numthread
      \<and> (\<forall>g. 1 \<le> g \<and> c_div N G \<le> g * numthread \<longrightarrow> group_count N G \<le> g)
      \<and> (G dvd N \<longrightarrow> N \<le> group_count N G * numthread * G)" if G: "0 < G" for G
  proof -
    have cd: "c_div N G = N div G" using assms G by (rule c_div_nonneg)
    have a: "1 \<le> group_count N G" using assms G by (rule group_count_ge1)
    have b: "N div G \<le> group_count N G * 64" using assms G by (rule group_count_covers)
    have c: "\<forall>g. 1 \<le> g \<and> N div G \<le> g * 64 \<longrightarrow> group_count N G \<le> g"
      using assms G by (simp add: group_count_least)
    have d: "N \<le> group_count N G * 64 * G" if "G dvd N"
    proof -
      have "N = N div G * G" using that by simp
      also have "\<dots> \<le> group_count N G * 64 * G" using b G by (simp add: mult_right_mono)
      finally show ?thesis .
    qed
    show ?thesis using a b c d by (simp add: cd numthread_def)
  qed
  then show ?thesis by (simp add: numblock_group_count NUM_ELEM_def)
qed

theorem launch_configurator_witness:
  "(0::int) \<le> 1000
   \<and> scalarCopy_numblock 1000 = group_count 1000 1 \<and> group_count 1000 1 = 16
   \<and> vectorCopy_numblock T_int 1000 = group_count 1000 (vectorLength T_int)
   \<and> memcpyFloat_numblock 1000 = group_count 1000 (4 * NUM_ELEM)
   \<and> c_div 1000 1 \<le> group_count 1000 1 * numthread
   \<and> 1000 \<le> group_count 1000 1 * numthread * 1"
  using launch_configurator [of 1000 T_int]
  by (simp add: group_count_def c_div_def numthread_def)

text \<open>
  The claim as stated fails: for \<open>vectorCopy\<close> on \<open>int\<close> with \<open>N = 257\<close> one block of 64
  threads is launched and \<open>1 * 64 * 4 < 257\<close>; for \<open>N = 0\<close> the count is 1 although no
  block at all would satisfy the inequality.
\<close>

theorem launch_configurator_counterexample:
  "vectorCopy_numblock T_int 257 = 1
   \<and> \<not> 257 \<le> vectorCopy_numblock T_int 257 * numthread * vectorLength T_int
   \<and> scalarCopy_numblock 0 = 1 \<and> (0::int) \<le> 0 * numthread * 1"
  by (simp add: vectorCopy_numblock_def scalarCopy_numblock_def vectorLength_def c_div_def numthread_def)

text \<open>
  Claim C3.  In every thread of \<open>memcpyFloatKernel\<close> with \<open>NUM_ELEM = 2\<close> and every count
  \<open>n\<close> of the type \<open>int\<close>, \<open>n \<ge> 0\<close>: a slot \<open>i < 2\<close> whose index
  \<open>index + i*blockDim_x\<close> is at least \<open>n\<close> is neither loaded nor stored; a slot whose index
  is below \<open>n\<close> is loaded and stored, and the destination then holds the value of the
  source there; no access of the thread is outside \<open>[0, n)\<close>.  This holds for every \<open>n\<close>,
  so also for those that are not a multiple of \<open>2 * 64\<close>.
\<close>

theorem memcpyFloatKernel_boundary:
  assumes "0 \<le> n" and "n < 2147483648" and "i < 2"
  shows "\<exists>tr. memcpyFloatKernel NUM_ELEM n data_in it = Some (Inr tr)
     \<and> (n \<le> memcpyFloatKernel_slot NUM_ELEM it i \<longrightarrow>
          memcpyFloatKernel_slot NUM_ELEM it i \<notin> set (load_indices tr) \<and>
          memcpyFloatKernel_slot NUM_ELEM it i \<notin> set (store_indices tr))
     \<and> (memcpyFloatKernel_slot NUM_ELEM it i < n \<longrightarrow>
          memcpyFloatKernel_slot NUM_ELEM it i \<in> set (load_indices tr) \<and>
          memcpyFloatKernel_slot NUM_ELEM it i \<in> set (store_indices tr) \<and>
          apply_events tr data_out (memcpyFloatKernel_slot NUM_ELEM it i)
            = data_in (memcpyFloatKernel_slot NUM_ELEM it i))
     \<and> (\<forall>k \<in> set (load_indices tr) \<union> set (store_indices tr). 0 \<le> k \<and> k < n)"
proof -
  let ?tr = "memcpy_events n data_in it"
  let ?k = "memcpyFloatKernel_slot 2 it i"
  have un: "u32 n = n" using assms by (intro u32_id) simp_all
  have i01: "i = 0 \<or> i = 1" using assms(3) by auto
  have run: "memcpyFloatKernel NUM_ELEM n data_in it = Some (Inr ?tr)"
    by (simp add: NUM_ELEM_def memcpyFloatKernel_thread)
  have out: "?k \<notin> set (load_indices ?tr) \<and> ?k \<notin> set (store_indices ?tr)" if "n \<le> ?k"
    using that by (simp add: memcpy_events_loads memcpy_events_stores un)
  have inl: "?k \<in> set (load_indices ?tr)" and ins: "?k \<in> set (store_indices ?tr)" if "?k < n"
    using that i01 by (auto simp: memcpy_events_loads memcpy_events_stores un)
  have cp: "apply_events ?tr data_out ?k = data_in ?k" if "?k < n"
    using memcpy_events_copies ins [OF that] by (rule apply_events_copies)
  have bnd: "\<forall>k \<in> set (load_indices ?tr) \<union> set (store_indices ?tr). 0 \<le> k \<and> k < n"
    by (auto simp: memcpy_events_loads memcpy_events_stores un memcpyFloatKernel_slot_nonneg)
  have "(n \<le> ?k \<longrightarrow> ?k \<notin> set (load_indices ?tr) \<and> ?k \<notin> set (store_indices ?tr))
     \<and> (?k < n \<longrightarrow> ?k \<in> set (load_indices ?tr) \<and> ?k \<in> set (store_indices ?tr) \<and>
          apply_events ?tr data_out ?k = data_in ?k)
     \<and> (\<forall>k \<in> set (load_indices ?tr) \<union> set (store_indices ?tr). 0 \<le> k \<and> k < n)"
    using out inl ins cp bnd by blast
  then show ?thesis
    unfolding NUM_ELEM_def [symmetric] using run by blast
qed

theorem memcpyFloatKernel_boundary_witness:
  "(0::int) \<le> 70 \<and> (70::int) < 2147483648 \<and> (1::nat) < 2
   \<and> memcpyFloatKernel_slot NUM_ELEM
         \<lparr>threadIdx_x = 10, blockIdx_x = 0, blockDim_x = 64, gridDim_x = 1\<rparr> 1 = 74
   \<and> memcpyFloatKernel_slot NUM_ELEM
         \<lparr>threadIdx_x = 10, blockIdx_x = 0, blockDim_x = 64, gridDim_x = 1\<rparr> 0 = 10
   \<and> (\<exists>tr. memcpyFloatKernel NUM_ELEM 70 (\<lambda>k. 2 * k)
               \<lparr>threadIdx_x = 10, blockIdx_x = 0, blockDim_x = 64, gridDim_x = 1\<rparr>
             = Some (Inr tr)
           \<and> 74 \<notin> set (load_indices tr) \<and> 74 \<notin> set (store_indices tr)
           \<and> 10 \<in> set (load_indices tr) \<and> 10 \<in> set (store_indices tr)
           \<and> apply_events tr (\<lambda>k. 0) 10 = (20::int))"
proof -
  let ?it = "\<lparr>threadIdx_x = 10, blockIdx_x = 0, blockDim_x = 64, gridDim_x = 1\<rparr>"
  have s1: "memcpyFloatKernel_slot NUM_ELEM ?it 1 = 74"
    by (simp add: memcpyFloatKernel_slot_def memcpyFloatKernel_index_def NUM_ELEM_def
        s32_def u32_def)
  have s0: "memcpyFloatKernel_slot NUM_ELEM ?it 0 = 10"
    by (simp add: memcpyFloatKernel_slot_def memcpyFloatKernel_index_def NUM_ELEM_def
        s32_def u32_def)
  show ?thesis
    using memcpyFloatKernel_boundary [of 70 1 "\<lambda>k. 2 * k" ?it "\<lambda>k. 0"]
      memcpyFloatKernel_boundary [of 70 0 "\<lambda>k. 2 * k" ?it "\<lambda>k. 0"]
    unfolding s1 s0 by auto
qed

text \<open>
  Claim C4.  The claim says that the loop over the remaining elements advances by the
  number of threads of the launch.  The source adds \<open>threadIdx_x\<close> to that number.  In the
  launch of \<open>vectorCopy\<close> on \<open>int\<close> with \<open>n = 6\<close>, one block of 64 threads, the thread 1
  copies the element 5 in this loop and then continues at the index 70, where the number
  of threads would give 69.
\<close>

theorem remaining_stride_thread_1:
  "vectorCopy_numblock T_int 6 = 1
   \<and> vectorCopyKernel T_int 6 src \<lparr>threadIdx_x = 1, blockIdx_x = 0, blockDim_x = 64, gridDim_x = 1\<rparr>
       = Some (Inr [Load 5, Store 5 (src 5)])
   \<and> vectorCopyKernel_remaining 6 src \<lparr>threadIdx_x = 1, blockIdx_x = 0, blockDim_x = 64, gridDim_x = 1\<rparr> 5 []
       = vectorCopyKernel_remaining 6 src \<lparr>threadIdx_x = 1, blockIdx_x = 0, blockDim_x = 64, gridDim_x = 1\<rparr> 70
           [Load 5, Store 5 (src 5)]
   \<and> s32 (5 + vectorCopyKernel_remaining_stride \<lparr>threadIdx_x = 1, blockIdx_x = 0, blockDim_x = 64, gridDim_x = 1\<rparr>) = 70
   \<and> s32 (5 + int (blockDim_x \<lparr>threadIdx_x = 1, blockIdx_x = 0, blockDim_x = 64, gridDim_x = 1\<rparr>
                     * gridDim_x \<lparr>threadIdx_x = 1, blockIdx_x = 0, blockDim_x = 64, gridDim_x = 1\<rparr>)) = 69"
proof -
  let ?it = "\<lparr>threadIdx_x = 1, blockIdx_x = 0, blockDim_x = 64, gridDim_x = 1\<rparr>"
  have nb: "vectorCopy_numblock T_int 6 = 1"
    by (simp add: vectorCopy_numblock_def vectorLength_simps numthread_def c_div_def)
  have cd: "c_div 6 4 = 1" by (simp add: c_div_def)
  have nxt: "s32 (5 + vectorCopyKernel_remaining_stride ?it) = 70"
    by (simp add: s32_def vectorCopyKernel_remaining_stride_def)
  have tot: "s32 (5 + int (blockDim_x ?it * gridDim_x ?it)) = 69"
    by (simp add: s32_def)
  have p1: "vectorCopyKernel_vector 4 6 src ?it 1 [] = Some (Inr [])"
    by (rule vectorCopyKernel_vector_exit) (simp add: cd)
  have "vectorCopyKernel_remaining 6 src ?it 5 []
      = vectorCopyKernel_remaining 6 src ?it (s32 (5 + vectorCopyKernel_remaining_stride ?it))
          ([] @ [Load 5, Store 5 (src 5)])"
    by (rule vectorCopyKernel_remaining_step) simp_all
  then have step: "vectorCopyKernel_remaining 6 src ?it 5 []
      = vectorCopyKernel_remaining 6 src ?it 70 [Load 5, Store 5 (src 5)]"
    by (simp only: nxt append_Nil)
  have fin: "vectorCopyKernel_remaining 6 src ?it 70 [Load 5, Store 5 (src 5)]
      = Some (Inr [Load 5, Store 5 (src 5)])"
    by (rule vectorCopyKernel_remaining_exit) simp
  have vl: "vectorLength T_int = 4" by (simp add: vectorLength_simps)
  have idx: "s32 (int (threadIdx_x ?it + blockIdx_x ?it * blockDim_x ?it)) = 1"
    by (simp add: s32_def)
  have i0: "s32 (1 + c_div 6 4 * 4) = 5" by (simp add: cd s32_def)
  have thread: "vectorCopyKernel T_int 6 src ?it = Some (Inr [Load 5, Store 5 (src 5)])"
    by (simp only: vectorCopyKernel_def Let_def vl idx p1 option.case sum.case i0 step fin)
  show ?thesis using nb thread step nxt tot by (intro conjI)
qed







text \<open>
  Claim C7, as amended.  On the HIP and CUDA paths every entry point enqueues the kernel
  and checks the last error right after it: the call ends in a fatal error if the enqueue
  failed, or if an error was already pending in the flag, and returns otherwise, with no
  further step.  On the SYCL path every entry point only enqueues the kernel.
\<close>

theorem dispatch_error_check:
  "(b = HIP \<or> b = CUDA \<longrightarrow>
      scalarCopy_host b n = [Enqueue (scalarCopy_numblock n) numthread, CheckLastError]
    \<and> vectorCopy_host b T n = [Enqueue (vectorCopy_numblock T n) numthread, CheckLastError]
    \<and> memcpyFloat_host b n = [Enqueue (memcpyFloat_numblock n) numthread, CheckLastError]
    \<and> host_run fails flag (scalarCopy_host b n)
        = (if fails \<or> flag then FatalError else Returned)
    \<and> host_run fails flag (vectorCopy_host b T n)
        = (if fails \<or> flag then FatalError else Returned)
    \<and> host_run fails flag (memcpyFloat_host b n)
        = (if fails \<or> flag then FatalError else Returned))
   \<and> scalarCopy_host SYCL n = [Enqueue (scalarCopy_numblock n) numthread]
   \<and> vectorCopy_host SYCL T n = [Enqueue (vectorCopy_numblock T n) numthread]
   \<and> memcpyFloat_host SYCL n = [Enqueue (memcpyFloat_numblock n) numthread]"
proof -
  have "dispatch b k = [Enqueue k numthread, CheckLastError]" if "b = HIP \<or> b = CUDA" for k
    using that by (auto simp: dispatch_def)
  moreover have "host_run fails flag [Enqueue k numthread, CheckLastError]
      = (if fails \<or> flag then FatalError else Returned)" for k
    by auto
  moreover have "dispatch SYCL k = [Enqueue k numthread]" for k
    by (simp add: dispatch_def)
  ultimately show ?thesis
    by (simp add: scalarCopy_host_def vectorCopy_host_def memcpyFloat_host_def)
qed

theorem dispatch_error_check_witness:
  "scalarCopy_host CUDA 100 = [Enqueue 2 64, CheckLastError]
   \<and> host_run True False (scalarCopy_host CUDA 100) = FatalError
   \<and> host_run False True (vectorCopy_host CUDA T_int 100) = FatalError
   \<and> host_run False False (memcpyFloat_host HIP 100) = Returned
   \<and> vectorCopy_host SYCL T_int 100 = [Enqueue 1 64]"
proof -
  have "scalarCopy_numblock 100 = 2" "vectorCopy_numblock T_int 100 = 1"
    by (simp_all add: scalarCopy_numblock_def vectorCopy_numblock_def vectorLength_simps
        numthread_def c_div_def)
  then show ?thesis
    using dispatch_error_check [of CUDA 100 T_int True False]
      dispatch_error_check [of CUDA 100 T_int False True]
      dispatch_error_check [of HIP 100 T_int False False]
    by (simp add: numthread_def)
qed

text \<open>
  The claim as stated, for every backend, fails: the SYCL path of no entry point checks
  an error flag.
\<close>

theorem dispatch_error_check_counterexample:
  "scalarCopy_host SYCL 1 = [Enqueue 1 64]
   \<and> CheckLastError \<notin> set (scalarCopy_host SYCL 1)
   \<and> CheckLastError \<notin> set (vectorCopy_host SYCL T_int 1)
   \<and> CheckLastError \<notin> set (memcpyFloat_host SYCL 1)"
  by (simp add: scalarCopy_host_def vectorCopy_host_def memcpyFloat_host_def dispatch_def
      scalarCopy_numblock_def numthread_def c_div_def)

text \<open>
  Claim C8.  For \<open>N = 0\<close> every entry point computes one block, the launched threads make
  no load and no store, and the destination is left as it was.
\<close>

theorem zero_count:
  "scalarCopy_numblock 0 = 1 \<and> vectorCopy_numblock T 0 = 1 \<and> memcpyFloat_numblock 0 = 1
   \<and> scalarCopy_run 0 src = Some (Inr []) \<and> vectorCopy_run T 0 src = Some (Inr [])
   \<and> memcpyFloat_run 0 src = Some (Inr [])
   \<and> scalarCopy 0 src dst = Some (Inr dst) \<and> vectorCopy T 0 src dst = Some (Inr dst)
   \<and> memcpyFloat 0 src dst = Some (Inr dst)"
proof -
  have nb: "scalarCopy_numblock 0 = 1" "vectorCopy_numblock T 0 = 1" "memcpyFloat_numblock 0 = 1"
    by (simp_all add: scalarCopy_numblock_def vectorCopy_numblock_def memcpyFloat_numblock_def
        numthread_def c_div_def)
  have s: "scalarCopy_run 0 src = Some (Inr [])"
    using scalarCopy_run_eq [of 0 src] by simp
  have v: "vectorCopy_run T 0 src = Some (Inr [])"
    using vectorCopy_run_grid [of 0 T src] by (simp add: vector_events_zero vectorCopy_fits_zero)
  have m: "memcpyFloat_run 0 src = Some (Inr [])"
    by (rule memcpyFloat_run_none) simp_all
  have e: "apply_events [] dst = dst" by (simp add: apply_events_def)
  show ?thesis
    using nb s v m e by (simp add: scalarCopy_def vectorCopy_def memcpyFloat_def finish_def)
qed

theorem zero_count_witness:
  "vectorCopy_numblock T_int 0 = 1
   \<and> vectorCopy_run T_int 0 (\<lambda>i. i + 1) = Some (Inr ([] :: int event list))
   \<and> scalarCopy 0 (\<lambda>i. i + 1) (\<lambda>i. 7 :: int) = Some (Inr (\<lambda>i. 7))
   \<and> memcpyFloat 0 (\<lambda>i. i + 1) (\<lambda>i. 7 :: int) = Some (Inr (\<lambda>i. 7))"
  using zero_count [of T_int "\<lambda>i. i + 1" "\<lambda>i. 7 :: int"] by simp

text \<open>
  Claim C9.  For every granularity \<open>G > 0\<close> the group count never decreases when the
  count grows: for \<open>0 \<le> N1 \<le> N2\<close> the count computed for \<open>N1\<close> is at most the one
  computed for \<open>N2\<close>.  So it is for the block counts of the three entry points.
\<close>

theorem numblock_monotone:
  assumes "0 \<le> N1" and "N1 \<le> N2"
  shows "scalarCopy_numblock N1 \<le> scalarCopy_numblock N2
       \<and> vectorCopy_numblock T N1 \<le> vectorCopy_numblock T N2
       \<and> memcpyFloat_numblock N1 \<le> memcpyFloat_numblock N2
       \<and> (\<forall>G. 0 < G \<longrightarrow> group_count N1 G \<le> group_count N2 G)"
proof -
  have g: "group_count N1 G \<le> group_count N2 G" if "0 < G" for G
    using assms that by (rule group_count_mono)
  have "scalarCopy_numblock N1 \<le> scalarCopy_numblock N2"
    using g [of 1] by (simp add: numblock_group_count)
  moreover have "vectorCopy_numblock T N1 \<le> vectorCopy_numblock T N2"
    using g [OF vectorLength_pos, of T] by (simp add: numblock_group_count)
  moreover have "memcpyFloat_numblock N1 \<le> memcpyFloat_numblock N2"
    using g [of 8] by (simp add: numblock_group_count)
  ultimately show ?thesis using g by blast
qed

theorem numblock_monotone_witness:
  "(0::int) \<le> 100 \<and> (100::int) \<le> 1000
   \<and> scalarCopy_numblock 100 \<le> scalarCopy_numblock 1000
   \<and> vectorCopy_numblock T_int 100 \<le> vectorCopy_numblock T_int 1000
   \<and> memcpyFloat_numblock 100 \<le> memcpyFloat_numblock 1000
   \<and> group_count 100 4 \<le> group_count 1000 4"
  using numblock_monotone [of 100 1000 T_int] by simp

text \<open>
  Claim C10.  For every count \<open>n \<ge> 0\<close> the launch of \<open>memcpyFloat\<close> completes, every
  store is to a float index in \<open>[0, 4 * (n/4))\<close>, and every destination element at an index
  \<open>\<ge> 4 * (n/4)\<close> is unchanged: the trailing \<open>n mod 4\<close> floats are never written.
\<close>

theorem memcpyFloat_tail_untouched:
  assumes "0 \<le> n"
  shows "\<exists>tr m. memcpyFloat_run n src = Some (Inr tr)
     \<and> (\<forall>j \<in> set (store_indices tr). 0 \<le> j \<and> j < 4 * c_div n 4)
     \<and> memcpyFloat n src dst = Some (Inr m)
     \<and> (\<forall>j. 4 * c_div n 4 \<le> j \<longrightarrow> m j = dst j)"
proof -
  obtain tr where run: "memcpyFloat_run n src = Some (Inr tr)"
    by (simp add: memcpyFloat_run_eq)
  have b: "\<forall>j \<in> set (store_indices tr). 0 \<le> j \<and> j < 4 * c_div n 4"
    using memcpyFloat_run_store_bound [OF assms run] by blast
  have "apply_events tr dst j = dst j" if "4 * c_div n 4 \<le> j" for j
  proof (rule apply_events_frame)
    show "j \<notin> set (store_indices tr)" using b that by auto
  qed
  moreover have "memcpyFloat n src dst = Some (Inr (apply_events tr dst))"
    by (simp add: memcpyFloat_def finish_def run)
  ultimately show ?thesis using run b by blast
qed

theorem memcpyFloat_tail_untouched_witness:
  "(0::int) \<le> 7 \<and> 4 * c_div 7 4 = 4
   \<and> (\<exists>tr m. memcpyFloat_run 7 (\<lambda>i. i + 1) = Some (Inr tr)
         \<and> 4 \<notin> set (store_indices tr) \<and> 5 \<notin> set (store_indices tr) \<and> 6 \<notin> set (store_indices tr)
         \<and> memcpyFloat 7 (\<lambda>i. i + 1) (\<lambda>i. 0 :: int) = Some (Inr m)
         \<and> m 4 = 0 \<and> m 5 = 0 \<and> m 6 = 0)"
proof -
  have c: "4 * c_div 7 4 = 4" by (simp add: c_div_def)
  show ?thesis
    using memcpyFloat_tail_untouched [of 7 "\<lambda>i. i + 1" "\<lambda>i. 0 :: int"]
    unfolding c by fastforce
qed

end
